theory Spec2Isabelle
  imports Main "HOL-Library.AList"
begin

section \<open>The useStore hook: a local store mirrored into a replicated key-value log\<close>

text \<open>
  The development follows \<^verbatim>\<open>src/hooks/useStore.ts\<close>. The hook wires four collaborators
  together: the tldraw store (``Local Store''), a \<^verbatim>\<open>YKeyValue\<close> over a Y.Array
  (``Replicated Log''), the \<^verbatim>\<open>meta\<close> map holding the shared schema (``Schema Marker'')
  and the awareness protocol of the websocket provider (``Presence Channel'').
  The handlers of the hook are translated one by one; the collaborators are libraries and
  appear only through the operations the hook calls on them.
\<close>

subsection \<open>Records, schemas and the two containers\<close>

type_synonym rid = string

text \<open>A \<^verbatim>\<open>TLRecord\<close>: its \<^verbatim>\<open>id\<close>, its \<^verbatim>\<open>typeName\<close> and the rest of its fields.\<close>

record tlrecord =
  recId :: rid
  typeName :: string
  props :: string

text \<open>\<^verbatim>\<open>SerializedSchema\<close>: a schema version and the version of every migration sequence.\<close>

datatype serialized_schema =
  SerializedSchema (schemaVersion: nat) (sequences: "(string \<times> nat) list")

type_synonym migration = string

datatype record_scope = document | session | presence_scope

text \<open>
  \<^verbatim>\<open>store.schema\<close>, as far as the hook uses it. \<^verbatim>\<open>getMigrationsSince\<close> returns a
  \<^verbatim>\<open>Result\<close> (\<open>Inl\<close> when \<^verbatim>\<open>ok\<close> is false), \<^verbatim>\<open>migrateStoreSnapshot\<close> a
  \<^verbatim>\<open>MigrationResult\<close> (\<open>Inl\<close> is \<^verbatim>\<open>type === 'error'\<close> with its reason).
  The scope of a record is the scope of its type. \<^verbatim>\<open>validateRecord\<close> is the check
  the store applies to every record it is given (it throws on a record the schema does
  not accept), and \<^verbatim>\<open>createIntegrityChecker\<close> is what \<^verbatim>\<open>store.ensureStoreIsUsable\<close>
  runs: it completes a store with the default records it lacks.
\<close>

record tlschema =
  serialize :: serialized_schema
  getMigrationsSince :: "serialized_schema \<Rightarrow> string + migration list"
  migrateStoreSnapshot ::
    "serialized_schema \<Rightarrow> (rid \<times> tlrecord) list \<Rightarrow> string + (rid \<times> tlrecord) list"
  typeScope :: "string \<Rightarrow> record_scope"
  validateRecord :: "tlrecord \<Rightarrow> bool"
  createIntegrityChecker :: "(rid \<times> tlrecord) list \<Rightarrow> (rid \<times> tlrecord) list"

text \<open>
  Both containers are keyed collections in insertion order: the store's records by id, and
  the Y.Array of \<^verbatim>\<open>{key, val}\<close> entries under the \<^verbatim>\<open>YKeyValue\<close>.
\<close>

type_synonym tlstore = "(rid \<times> tlrecord) list"
type_synonym ykeyvalue = "(rid \<times> tlrecord) list"

text \<open>
  \<^verbatim>\<open>yStore.get\<close>, \<^verbatim>\<open>yStore.set\<close> and \<^verbatim>\<open>yStore.delete\<close>. A \<^verbatim>\<open>set\<close> removes the
  entry the key had and pushes the new entry at the end of the array; \<^verbatim>\<open>get\<close> of an
  absent key is \<^verbatim>\<open>undefined\<close>, here \<open>None\<close>.
\<close>

definition ykvGet :: "ykeyvalue \<Rightarrow> rid \<Rightarrow> tlrecord option" where
  "ykvGet ys k = map_of ys k"

definition ykvDelete :: "rid \<Rightarrow> ykeyvalue \<Rightarrow> ykeyvalue" where
  "ykvDelete k ys = AList.delete k ys"

definition ykvSet :: "rid \<Rightarrow> tlrecord \<Rightarrow> ykeyvalue \<Rightarrow> ykeyvalue" where
  "ykvSet k v ys = AList.delete k ys @ [(k, v)]"

text \<open>
  What a callback passed to \<^verbatim>\<open>yDoc.transact\<close> does to the document: writes and deletes
  on \<^verbatim>\<open>yStore\<close> and \<^verbatim>\<open>meta.set('schema', s)\<close>.
\<close>

datatype log_op = YSet rid tlrecord | YDelete rid | MetaSet serialized_schema

datatype js_error = NoSchemaFound | TypeError | ValidationError

text \<open>
  How a handler ends: it runs to its last statement, leaves through a \<^verbatim>\<open>return\<close>
  before that, or throws.
\<close>

datatype outcome = Completed | Returned | Threw js_error

text \<open>
  The store operations a handler performs inside \<^verbatim>\<open>store.mergeRemoteChanges\<close>. The
  argument of \<^verbatim>\<open>put\<close> is an array of JavaScript values, so an element may be
  \<^verbatim>\<open>undefined\<close>.
\<close>

datatype store_op = StoreRemove "rid list" | StorePut "tlrecord option list"

text \<open>
  \<^verbatim>\<open>RecordsDiff\<close>, the \<^verbatim>\<open>changes\<close> of a store notification: the values
  (\<^verbatim>\<open>Object.values\<close>) of its three objects, each keyed by record id.
\<close>

record records_diff =
  added :: "tlrecord list"
  updated :: "(tlrecord \<times> tlrecord) list"
  removed :: "tlrecord list"

text \<open>One entry of the \<^verbatim>\<open>changes\<close> map of a \<^verbatim>\<open>YKeyValue\<close> change event.\<close>

datatype change =
  ChangeAdd tlrecord
  | ChangeUpdate tlrecord tlrecord
  | ChangeDelete tlrecord

text \<open>The awareness protocol: the state of a client, and an update notification.\<close>

record awareness_state =
  presence :: "tlrecord option"

record awareness_update =
  addedClients :: "nat list"
  updatedClients :: "nat list"
  removedClients :: "nat list"

datatype connection_status = online | offline

text \<open>\<^verbatim>\<open>TLStoreWithStatus\<close>, the value the hook returns.\<close>

datatype store_with_status = Loading | SyncedRemote connection_status

datatype transport_status = disconnected | connected

text \<open>The disposers pushed on \<^verbatim>\<open>unsubs\<close>.\<close>

datatype disposer =
  UnlistenStore | OffChange | StopReact | UnobserveMeta | OffUpdate | OffSynced | OffStatus

subsection \<open>The state of one activation of the effect\<close>

text \<open>
  Everything the effect closes over. \<open>store\<close>, \<open>yarray\<close>, \<open>meta\<close> and
  \<open>awarenessStates\<close> are the contents of the collaborators; \<open>storeWithStatus\<close> and
  \<open>hasConnectedBefore\<close> are the hook's own variables; the listener counters say how many
  times each handler is registered. Three fields only record what happened:
  \<open>transactions\<close> (one entry per \<^verbatim>\<open>yDoc.transact\<close> call, with its operations),
  \<open>merges\<close> (one entry per \<^verbatim>\<open>store.mergeRemoteChanges\<close> call) and \<open>syncRuns\<close>
  (how often the body of \<^verbatim>\<open>handleSync\<close> was entered).
\<close>

record hook =
  store :: tlstore
  yarray :: ykeyvalue
  meta :: "serialized_schema option"
  awarenessStates :: "(nat \<times> awareness_state) list"
  userPreferencesId :: "string option"
  storeWithStatus :: store_with_status
  hasConnectedBefore :: bool
  syncedListener :: bool
  storeListeners :: nat
  changeListeners :: nat
  presenceReactors :: nat
  metaObservers :: nat
  updateListeners :: nat
  unsubs :: "disposer list"
  docDestroyed :: bool
  alerts :: "string list"
  consoleErrors :: "string list"
  uncaught :: "js_error list"
  transactions :: "log_op list list"
  merges :: "store_op list list"
  syncRuns :: nat

text \<open>What is fixed for an activation: the store's schema, the awareness client id and
  the presence derivation (a function of the store's records and the presence id).\<close>

record hook_env =
  schema :: tlschema
  clientID :: nat
  presenceDerivation :: "rid \<Rightarrow> tlstore \<Rightarrow> tlrecord option"

subsection \<open>The store and the document\<close>

text \<open>
  \<^verbatim>\<open>store.put\<close> takes the records in turn. It reads \<^verbatim>\<open>record.id\<close>, which throws a
  TypeError on \<^verbatim>\<open>undefined\<close>, and validates the record against the schema, which
  throws on a record the schema does not accept; otherwise it replaces the record of that
  id or adds it. \<^verbatim>\<open>store.remove\<close> ignores ids that are not in the store.
\<close>

fun storePut :: "tlschema \<Rightarrow> tlrecord option list \<Rightarrow> tlstore \<Rightarrow> js_error + tlstore" where
  "storePut sch [] s = Inr s"
| "storePut sch (None # rs) s = Inl TypeError"
| "storePut sch (Some r # rs) s =
     (if validateRecord sch r then storePut sch rs (AList.update (recId r) r s)
      else Inl ValidationError)"

definition storeRemove :: "rid list \<Rightarrow> tlstore \<Rightarrow> tlstore" where
  "storeRemove ids s = fold AList.delete ids s"

fun applyStoreOps :: "tlschema \<Rightarrow> store_op list \<Rightarrow> tlstore \<Rightarrow> js_error + tlstore" where
  "applyStoreOps sch [] s = Inr s"
| "applyStoreOps sch (StoreRemove ids # ops) s = applyStoreOps sch ops (storeRemove ids s)"
| "applyStoreOps sch (StorePut rs # ops) s =
     (case storePut sch rs s of Inl e \<Rightarrow> Inl e | Inr s' \<Rightarrow> applyStoreOps sch ops s')"

text \<open>
  \<^verbatim>\<open>store.mergeRemoteChanges(fn)\<close> runs \<^verbatim>\<open>fn\<close> as one atomic operation whose changes
  carry the source \<^verbatim>\<open>'remote'\<close>: either all of them are applied, or \<^verbatim>\<open>fn\<close> throws
  and the store is as before.
\<close>

definition mergeRemoteChanges :: "tlschema \<Rightarrow> store_op list \<Rightarrow> hook
    \<Rightarrow> hook \<times> outcome" where
  "mergeRemoteChanges sch ops st =
     (case applyStoreOps sch ops (store st) of
        Inl e \<Rightarrow> (st\<lparr>merges := merges st @ [ops]\<rparr>, Threw e)
      | Inr s' \<Rightarrow> (st\<lparr>store := s', merges := merges st @ [ops]\<rparr>, Completed))"

text \<open>
  \<^verbatim>\<open>store.loadSnapshot\<close> is one atomic operation: the store is cleared, the records of
  the snapshot are put (and so validated), and \<^verbatim>\<open>ensureStoreIsUsable\<close> adds the default
  records that are missing. When a record is rejected the store is as before.
\<close>

definition loadSnapshot :: "tlschema \<Rightarrow> (rid \<times> tlrecord) list \<Rightarrow> tlstore
    \<Rightarrow> js_error + tlstore" where
  "loadSnapshot sch snapshot s =
     (case storePut sch (map Some (map snd snapshot)) [] of
        Inl err \<Rightarrow> Inl err
      | Inr s' \<Rightarrow> Inr (createIntegrityChecker sch s'))"

text \<open>
  The diff the store reports for an operation that took it from \<open>old\<close> to \<open>new\<close>:
  the records under new ids are added, those under ids that both have are updated, and
  the old records whose ids are gone are removed.
\<close>

definition storeDiff :: "tlstore \<Rightarrow> tlstore \<Rightarrow> records_diff" where
  "storeDiff old new =
     \<lparr>added = map snd (filter (\<lambda>(k, r). map_of old k = None) new),
      updated = concat (map (\<lambda>(k, r).
                  case map_of old k of None \<Rightarrow> [] | Some p \<Rightarrow> [(p, r)]) new),
      removed = map snd (filter (\<lambda>(k, p). map_of new k = None) old)\<rparr>"

text \<open>
  An emitter calls the registered copies of a handler in turn; a handler that throws
  ends the emit, and the error is uncaught.
\<close>

fun emit :: "nat \<Rightarrow> (hook \<Rightarrow> hook \<times> outcome) \<Rightarrow> hook \<Rightarrow> hook" where
  "emit 0 h st = st"
| "emit (Suc n) h st =
     (case h st of
        (st', Threw err) \<Rightarrow> st'\<lparr>uncaught := uncaught st' @ [err]\<rparr>
      | (st', _) \<Rightarrow> emit n h st')"

definition allRecords :: "tlstore \<Rightarrow> tlrecord list" where
  "allRecords s = map snd s"

fun applyLogOp :: "log_op \<Rightarrow> ykeyvalue \<times> serialized_schema option
    \<Rightarrow> ykeyvalue \<times> serialized_schema option" where
  "applyLogOp (YSet k v) (ys, m) = (ykvSet k v ys, m)"
| "applyLogOp (YDelete k) (ys, m) = (ykvDelete k ys, m)"
| "applyLogOp (MetaSet s) (ys, m) = (ys, Some s)"

text \<open>\<^verbatim>\<open>yDoc.transact\<close>: the operations of the callback, in order, as one transaction.\<close>

definition transact :: "log_op list \<Rightarrow> hook \<Rightarrow> hook" where
  "transact ops st =
     (let (ys, m) = fold applyLogOp ops (yarray st, meta st)
      in st\<lparr>yarray := ys, meta := m, transactions := transactions st @ [ops]\<rparr>)"

subsection \<open>Local store to replicated log\<close>

text \<open>
  The listener \<^verbatim>\<open>syncStoreChangesToYjsDoc\<close>: inside one transaction, every added record
  and the new side of every updated pair is set under its id, then the id of every removed
  record is deleted.
\<close>

definition syncOps :: "records_diff \<Rightarrow> log_op list" where
  "syncOps changes =
     map (\<lambda>r. YSet (recId r) r) (added changes)
     @ map (\<lambda>(_, r). YSet (recId r) r) (updated changes)
     @ map (\<lambda>r. YDelete (recId r)) (removed changes)"

definition syncStoreChangesToYjsDoc :: "records_diff \<Rightarrow> hook \<Rightarrow> hook" where
  "syncStoreChangesToYjsDoc changes st = transact (syncOps changes) st"

text \<open>
  The listener is registered with \<^verbatim>\<open>{source: "user", scope: "document"}\<close>: the store
  calls it for changes made by the user, with the diff restricted to the records of
  document scope, and does not call it when nothing is left.
\<close>

definition isDocument :: "tlschema \<Rightarrow> tlrecord \<Rightarrow> bool" where
  "isDocument sch r = (typeScope sch (typeName r) = document)"

definition filterChangesByScope :: "tlschema \<Rightarrow> records_diff \<Rightarrow> records_diff" where
  "filterChangesByScope sch changes =
     \<lparr>added = filter (isDocument sch) (added changes),
      updated = filter (\<lambda>(_, r). isDocument sch r) (updated changes),
      removed = filter (isDocument sch) (removed changes)\<rparr>"

definition isEmptyDiff :: "records_diff \<Rightarrow> bool" where
  "isEmptyDiff changes = (added changes = [] \<and> updated changes = [] \<and> removed changes = [])"

text \<open>
  A record diff describes the step of the store that produced it: the added records and
  the new sides of the updated pairs are in the store afterwards, the removed ones are not.
\<close>

definition applyDiff :: "records_diff \<Rightarrow> tlstore \<Rightarrow> tlstore" where
  "applyDiff changes s =
     fold (\<lambda>r. AList.delete (recId r)) (removed changes)
       (fold (\<lambda>(_, r). AList.update (recId r) r) (updated changes)
          (fold (\<lambda>r. AList.update (recId r) r) (added changes) s))"

text \<open>
  One edit by the user: the store changes by the diff and notifies its user/document
  listeners, each of which runs \<^verbatim>\<open>syncStoreChangesToYjsDoc\<close>.
\<close>

definition storeEmit :: "hook_env \<Rightarrow> records_diff \<Rightarrow> hook \<Rightarrow> hook" where
  "storeEmit e changes st =
     (let st1 = st\<lparr>store := applyDiff changes (store st)\<rparr>;
          filtered = filterChangesByScope (schema e) changes
      in if isEmptyDiff filtered then st1
         else ((syncStoreChangesToYjsDoc filtered) ^^ storeListeners st1) st1)"

text \<open>The same edit when the listener is registered exactly once.\<close>

definition userEdit :: "hook_env \<Rightarrow> records_diff \<Rightarrow> hook \<Rightarrow> hook" where
  "userEdit e changes st =
     (let st1 = st\<lparr>store := applyDiff changes (store st)\<rparr>;
          filtered = filterChangesByScope (schema e) changes
      in if isEmptyDiff filtered then st1
         else syncStoreChangesToYjsDoc filtered st1)"

text \<open>
  What the store does with the diff of a change made by the user elsewhere than in an edit
  of the editor (\<^verbatim>\<open>loadSnapshot\<close> is one): it calls its user/document listeners in the
  same way.
\<close>

definition notifyListeners :: "hook_env \<Rightarrow> records_diff \<Rightarrow> hook \<Rightarrow> hook" where
  "notifyListeners e changes st =
     (let filtered = filterChangesByScope (schema e) changes
      in if isEmptyDiff filtered then st
         else ((syncStoreChangesToYjsDoc filtered) ^^ storeListeners st) st)"

subsection \<open>Replicated log to local store\<close>

text \<open>
  The body of the \<^verbatim>\<open>changes.forEach\<close> in \<^verbatim>\<open>handleChange\<close>: an added or updated key
  pushes \<^verbatim>\<open>yStore.get(id)\<close> on \<^verbatim>\<open>put\<close> (the \<^verbatim>\<open>!\<close> is erased at run time), a
  deleted key pushes the id on \<^verbatim>\<open>remove\<close>.
\<close>

fun classify :: "ykeyvalue \<Rightarrow> rid \<times> change
    \<Rightarrow> rid list \<times> tlrecord option list \<Rightarrow> rid list \<times> tlrecord option list" where
  "classify ys (k, ChangeAdd _) (remove, put) = (remove, put @ [ykvGet ys k])"
| "classify ys (k, ChangeUpdate _ _) (remove, put) = (remove, put @ [ykvGet ys k])"
| "classify ys (k, ChangeDelete _) (remove, put) = (remove @ [k], put)"

text \<open>The callback both handlers pass to \<^verbatim>\<open>store.mergeRemoteChanges\<close>.\<close>

definition mergeOps :: "rid list \<Rightarrow> tlrecord option list \<Rightarrow> store_op list" where
  "mergeOps remove put =
     (if remove \<noteq> [] then [StoreRemove remove] else [])
     @ (if put \<noteq> [] then [StorePut put] else [])"

definition handleChange :: "hook_env \<Rightarrow> (rid \<times> change) list \<Rightarrow> bool \<Rightarrow> hook
    \<Rightarrow> hook \<times> outcome" where
  "handleChange e changes transactionLocal st =
     (if transactionLocal then (st, Returned)
      else
        (let (remove, put) = fold (classify (yarray st)) changes ([], [])
         in mergeRemoteChanges (schema e) (mergeOps remove put) st))"

subsection \<open>Presence\<close>

text \<open>\<^verbatim>\<open>Number.prototype.toString\<close> on a client id, a non-negative integer.\<close>

definition digitChar :: "nat \<Rightarrow> char" where
  "digitChar d = ''0123456789'' ! d"

fun toString :: "nat \<Rightarrow> string" where
  "toString n = (if n < 10 then [digitChar n] else toString (n div 10) @ [digitChar (n mod 10)])"

declare toString.simps [simp del]

text \<open>\<^verbatim>\<open>InstancePresenceRecordType.createId\<close>: the type name, a colon and the given id.\<close>

definition createId :: "string \<Rightarrow> rid" where
  "createId s = ''instance_presence:'' @ s"

definition presenceId :: "hook_env \<Rightarrow> rid" where
  "presenceId e = createId (toString (clientID e))"

text \<open>
  The two loops of \<^verbatim>\<open>handleUpdate\<close> over \<^verbatim>\<open>update.added\<close> and
  \<^verbatim>\<open>update.updated\<close>: the state of the client is looked up, and its presence is pushed
  when the state exists, has a presence and that presence is not the local one.
\<close>

fun stagePresence :: "(nat \<times> awareness_state) list \<Rightarrow> rid \<Rightarrow> nat list
    \<Rightarrow> tlrecord list \<Rightarrow> tlrecord list" where
  "stagePresence states pid [] put = put"
| "stagePresence states pid (c # cs) put =
     (case map_of states c of
        None \<Rightarrow> stagePresence states pid cs put
      | Some state \<Rightarrow>
          (case presence state of
             None \<Rightarrow> stagePresence states pid cs put
           | Some p \<Rightarrow>
               if recId p \<noteq> pid then stagePresence states pid cs (put @ [p])
               else stagePresence states pid cs put))"

definition handleUpdate :: "hook_env \<Rightarrow> awareness_update \<Rightarrow> hook \<Rightarrow> hook \<times> outcome" where
  "handleUpdate e update st =
     (let states = awarenessStates st;
          put0 = stagePresence states (presenceId e) (addedClients update) [];
          put = stagePresence states (presenceId e) (updatedClients update) put0;
          remove = map (\<lambda>c. createId (toString c)) (removedClients update)
      in mergeRemoteChanges (schema e) (mergeOps remove (map Some put)) st)"

subsection \<open>The schema marker\<close>

text \<open>
  \<^verbatim>\<open>yDoc.destroy()\<close>. The awareness instance of the provider listens to the
  \<^verbatim>\<open>destroy\<close> event of its document and destroys itself: it sets the local state to
  \<^verbatim>\<open>null\<close>, which removes the local client from the states and emits an
  \<^verbatim>\<open>update\<close> that reports the local client as removed, and then drops its listeners.
  The listeners of the store, of \<^verbatim>\<open>yStore\<close> and of \<^verbatim>\<open>meta\<close> are not touched.
\<close>

definition awarenessDestroy :: "hook_env \<Rightarrow> hook \<Rightarrow> hook" where
  "awarenessDestroy e st =
     (let st1 = st\<lparr>awarenessStates := AList.delete (clientID e) (awarenessStates st)\<rparr>;
          st2 = emit (updateListeners st1)
                  (handleUpdate e
                     \<lparr>addedClients = [], updatedClients = [], removedClients = [clientID e]\<rparr>)
                  st1
      in st2\<lparr>updateListeners := 0\<rparr>)"

definition docDestroy :: "hook_env \<Rightarrow> hook \<Rightarrow> hook" where
  "docDestroy e st = awarenessDestroy e (st\<lparr>docDestroyed := True\<rparr>)"

text \<open>
  \<^verbatim>\<open>handleMetaUpdate\<close>, the observer of \<^verbatim>\<open>meta\<close>. \<^verbatim>\<open>window.alert\<close> is recorded in
  \<open>alerts\<close>; the handler does not call the disposers of \<^verbatim>\<open>unsubs\<close>.
\<close>

definition handleMetaUpdate :: "hook_env \<Rightarrow> hook \<Rightarrow> hook \<times> outcome" where
  "handleMetaUpdate e st =
     (case meta st of
        None \<Rightarrow> (st, Threw NoSchemaFound)
      | Some theirSchema \<Rightarrow>
          (case getMigrationsSince (schema e) theirSchema of
             Inl _ \<Rightarrow>
               (docDestroy e
                  (st\<lparr>alerts := alerts st @ [''Please refresh the page, schema is updated'']\<rparr>),
                Completed)
           | Inr newMigrations \<Rightarrow>
               if length newMigrations > 0
               then (docDestroy e
                       (st\<lparr>alerts := alerts st
                            @ [''Please refresh the page, schema is updated'']\<rparr>),
                     Completed)
               else (st, Completed)))"

subsection \<open>Initial reconciliation\<close>

text \<open>
  \<^verbatim>\<open>Object.fromEntries(records.map((record) => [record.id, record]))\<close>: a later
  record of the same id replaces the earlier one in place.
\<close>

definition snapshotOf :: "tlrecord list \<Rightarrow> (rid \<times> tlrecord) list" where
  "snapshotOf records = fold (\<lambda>r. AList.update (recId r) r) records []"

text \<open>The callback of the transaction in the branch of a non-empty \<^verbatim>\<open>yStore\<close>.\<close>

definition reconcileOps :: "tlrecord list \<Rightarrow> (rid \<times> tlrecord) list \<Rightarrow> serialized_schema
    \<Rightarrow> log_op list" where
  "reconcileOps records migrated ourSchema =
     map (\<lambda>r. YDelete (recId r)) (filter (\<lambda>r. map_of migrated (recId r) = None) records)
     @ map (\<lambda>r. YSet (recId r) r) (map snd migrated)
     @ [MetaSet ourSchema]"

text \<open>The callback of the transaction in the branch of an empty \<^verbatim>\<open>yStore\<close>.\<close>

definition seedOps :: "tlrecord list \<Rightarrow> serialized_schema \<Rightarrow> log_op list" where
  "seedOps records ourSchema = map (\<lambda>r. YSet (recId r) r) records @ [MetaSet ourSchema]"

text \<open>
  The first part of \<^verbatim>\<open>handleSync\<close>: the listeners are registered, the user id is set
  and the local presence is published. In the rest, \<^verbatim>\<open>store.loadSnapshot\<close> is a change
  of the store by the user, so the store reports its diff to the listener that has just
  been registered.
\<close>

definition registerListeners :: "hook_env \<Rightarrow> hook \<Rightarrow> hook" where
  "registerListeners e st =
     st\<lparr>storeListeners := Suc (storeListeners st),
        changeListeners := Suc (changeListeners st),
        userPreferencesId := Some (toString (clientID e)),
        awarenessStates :=
          AList.update (clientID e)
            \<lparr>presence = presenceDerivation e (presenceId e) (store st)\<rparr> (awarenessStates st),
        presenceReactors := Suc (presenceReactors st),
        metaObservers := Suc (metaObservers st),
        updateListeners := Suc (updateListeners st),
        unsubs := unsubs st @ [UnlistenStore, OffChange, StopReact, UnobserveMeta, OffUpdate],
        syncRuns := Suc (syncRuns st)\<rparr>"

definition handleSync :: "hook_env \<Rightarrow> hook \<Rightarrow> hook \<times> outcome" where
  "handleSync e st0 =
     (let st = registerListeners e st0
      in if length (yarray st) \<noteq> 0 then
           (let ourSchema = serialize (schema e)
            in case meta st of
                 None \<Rightarrow> (st, Threw NoSchemaFound)
               | Some theirSchema \<Rightarrow>
                   (let records = map snd (yarray st)
                    in case migrateStoreSnapshot (schema e) theirSchema (snapshotOf records) of
                         Inl reason \<Rightarrow>
                           (st\<lparr>consoleErrors := consoleErrors st @ [reason],
                               alerts := alerts st
                                 @ [''The schema has been updated. Please refresh the page'']\<rparr>,
                            Returned)
                       | Inr migrated \<Rightarrow>
                           (let st1 = transact (reconcileOps records migrated ourSchema) st
                            in case loadSnapshot (schema e) migrated (store st1) of
                                 Inl err \<Rightarrow> (st1, Threw err)
                               | Inr loaded \<Rightarrow>
                                   (let st2 = notifyListeners e (storeDiff (store st1) loaded)
                                                (st1\<lparr>store := loaded\<rparr>)
                                    in (st2\<lparr>storeWithStatus := SyncedRemote online\<rparr>,
                                        Completed)))))
         else
           (let st1 = transact (seedOps (allRecords (store st)) (serialize (schema e))) st
            in (st1\<lparr>storeWithStatus := SyncedRemote online\<rparr>, Completed)))"

subsection \<open>The connection lifecycle\<close>

text \<open>
  \<^verbatim>\<open>handleStatusChange\<close>. A \<^verbatim>\<open>disconnected\<close> status sets the exposed value and
  returns; otherwise \<^verbatim>\<open>handleSync\<close> is taken off the \<^verbatim>\<open>synced\<close> event and, at the
  first \<^verbatim>\<open>connected\<close> status only, put on it again.
\<close>

definition handleStatusChange :: "transport_status \<Rightarrow> hook \<Rightarrow> hook" where
  "handleStatusChange status st =
     (if status = disconnected then st\<lparr>storeWithStatus := SyncedRemote offline\<rparr>
      else
        (let st1 = st\<lparr>syncedListener := False\<rparr>
         in if status = connected then
              (if hasConnectedBefore st1 then st1
               else st1\<lparr>hasConnectedBefore := True, syncedListener := True,
                        unsubs := unsubs st1 @ [OffSynced]\<rparr>)
            else st1))"

text \<open>
  The effect itself: the exposed value is set to \<^verbatim>\<open>loading\<close> and
  \<^verbatim>\<open>handleStatusChange\<close> is registered; nothing else is until the transport reports.
\<close>

definition activate :: "tlstore \<Rightarrow> ykeyvalue \<Rightarrow> serialized_schema option
    \<Rightarrow> (nat \<times> awareness_state) list \<Rightarrow> hook" where
  "activate s ys m states =
     \<lparr>store = s, yarray = ys, meta = m, awarenessStates = states,
      userPreferencesId = None, storeWithStatus = Loading, hasConnectedBefore = False,
      syncedListener = False, storeListeners = 0, changeListeners = 0, presenceReactors = 0,
      metaObservers = 0, updateListeners = 0, unsubs = [OffStatus], docDestroyed = False,
      alerts = [], consoleErrors = [], uncaught = [], transactions = [], merges = [],
      syncRuns = 0\<rparr>"

text \<open>
  What reaches the hook from outside: a status or a \<^verbatim>\<open>synced\<close> event of the
  transport, an edit of the store by the user, a change event of \<^verbatim>\<open>yStore\<close> with the
  \<^verbatim>\<open>local\<close> flag of its transaction, an awareness update, and a new value of the
  schema entry of \<^verbatim>\<open>meta\<close>.
\<close>

datatype event =
  StatusEvent transport_status
  | SyncedEvent
  | LocalEdit records_diff
  | ChangeEvent "(rid \<times> change) list" bool
  | AwarenessEvent awareness_update
  | MetaEvent "serialized_schema option"

fun deliver :: "hook_env \<Rightarrow> event \<Rightarrow> hook \<Rightarrow> hook" where
  "deliver e (StatusEvent status) st = handleStatusChange status st"
| "deliver e SyncedEvent st = emit (if syncedListener st then 1 else 0) (handleSync e) st"
| "deliver e (LocalEdit changes) st = storeEmit e changes st"
| "deliver e (ChangeEvent changes transactionLocal) st =
     emit (changeListeners st) (handleChange e changes transactionLocal) st"
| "deliver e (AwarenessEvent update) st = emit (updateListeners st) (handleUpdate e update) st"
| "deliver e (MetaEvent m) st = emit (metaObservers st) (handleMetaUpdate e) (st\<lparr>meta := m\<rparr>)"

definition run :: "hook_env \<Rightarrow> event list \<Rightarrow> hook \<Rightarrow> hook" where
  "run e evs st = fold (deliver e) evs st"

subsection \<open>Notions used to state the properties\<close>

text \<open>The keys of a change event by the branch of the \<^verbatim>\<open>switch\<close> they take.\<close>

fun isDelete :: "change \<Rightarrow> bool" where
  "isDelete (ChangeDelete _) = True"
| "isDelete _ = False"

text \<open>A staged value that \<^verbatim>\<open>store.put\<close> takes: it is there and the schema accepts it.\<close>

definition putAccepts :: "tlschema \<Rightarrow> tlrecord option \<Rightarrow> bool" where
  "putAccepts sch v = (case v of None \<Rightarrow> False | Some r \<Rightarrow> validateRecord sch r)"

definition putKeys :: "(rid \<times> change) list \<Rightarrow> rid list" where
  "putKeys changes = map fst (filter (\<lambda>(k, c). \<not> isDelete c) changes)"

definition removeKeys :: "(rid \<times> change) list \<Rightarrow> rid list" where
  "removeKeys changes = map fst (filter (\<lambda>(k, c). isDelete c) changes)"

text \<open>
  The presence a participant has published, if any, and the presences of a list of
  participants that are not the local one: the specification's reading of the presence
  handler, to be compared with \<open>stagePresence\<close>.
\<close>

definition publishedPresence :: "(nat \<times> awareness_state) list \<Rightarrow> nat \<Rightarrow> tlrecord option" where
  "publishedPresence states c =
     (case map_of states c of None \<Rightarrow> None | Some state \<Rightarrow> presence state)"

definition remotePresences :: "(nat \<times> awareness_state) list \<Rightarrow> rid \<Rightarrow> nat list
    \<Rightarrow> tlrecord list" where
  "remotePresences states pid cs =
     filter (\<lambda>p. recId p \<noteq> pid) (List.map_filter (publishedPresence states) cs)"

text \<open>
  The records of document scope that the store holds, by id: the part of the store that the
  log is to mirror.
\<close>

definition documentRecords :: "tlschema \<Rightarrow> tlstore \<Rightarrow> rid \<Rightarrow> tlrecord option" where
  "documentRecords sch s k =
     (case map_of s k of
        None \<Rightarrow> None
      | Some r \<Rightarrow> if isDocument sch r then Some r else None)"

definition mirror :: "hook_env \<Rightarrow> hook \<Rightarrow> bool" where
  "mirror e st = (map_of (yarray st) = documentRecords (schema e) (store st))"

definition diffRecords :: "records_diff \<Rightarrow> tlrecord list" where
  "diffRecords changes = added changes @ map snd (updated changes) @ removed changes"

text \<open>
  A store whose records sit under their own id and whose scope can be read off the id
  (tldraw ids begin with the type name).
\<close>

definition keyedByScope :: "tlschema \<Rightarrow> (rid \<Rightarrow> bool) \<Rightarrow> tlstore \<Rightarrow> bool" where
  "keyedByScope sch docId s =
     (\<forall>k r. map_of s k = Some r \<longrightarrow> recId r = k \<and> isDocument sch r = docId k)"

text \<open>
  The events between the first \<^verbatim>\<open>connected\<close> status and the next one: the time during
  which \<^verbatim>\<open>handleSync\<close> is registered on \<^verbatim>\<open>synced\<close>.
\<close>

fun isConnected :: "event \<Rightarrow> bool" where
  "isConnected (StatusEvent connected) = True"
| "isConnected _ = False"

fun isSynced :: "event \<Rightarrow> bool" where
  "isSynced SyncedEvent = True"
| "isSynced _ = False"

definition syncWindow :: "event list \<Rightarrow> event list" where
  "syncWindow evs =
     takeWhile (\<lambda>ev. \<not> isConnected ev) (tl (dropWhile (\<lambda>ev. \<not> isConnected ev) evs))"

subsection \<open>A concrete schema, records and states\<close>

text \<open>
  A schema with two known versions: a snapshot of the old version is migrated by dropping
  the records of the type \<^verbatim>\<open>legacy\<close> and marking every other record, a snapshot of
  the current version is returned as it is, and any other version is an error. The schema
  accepts the records of the types it knows, and a usable store has a document record and
  a pointer record.
\<close>

definition schemaOld :: serialized_schema where
  "schemaOld = SerializedSchema 2 [(''com.tldraw.shape'', 1)]"

definition schemaNew :: serialized_schema where
  "schemaNew = SerializedSchema 2 [(''com.tldraw.shape'', 2)]"

definition schemaFuture :: serialized_schema where
  "schemaFuture = SerializedSchema 2 [(''com.tldraw.shape'', 3)]"

definition migrateRecord :: "tlrecord \<Rightarrow> tlrecord" where
  "migrateRecord r = r\<lparr>props := props r @ ''+v2''\<rparr>"

definition knownTypes :: "string list" where
  "knownTypes = [''shape'', ''page'', ''document'', ''camera'', ''pointer'', ''instance_presence'']"

definition defaultDocument :: tlrecord where
  "defaultDocument =
     \<lparr>recId = ''document:document'', typeName = ''document'', props = ''default''\<rparr>"

definition defaultPointer :: tlrecord where
  "defaultPointer =
     \<lparr>recId = ''pointer:pointer'', typeName = ''pointer'', props = ''default''\<rparr>"

definition exampleSchema :: tlschema where
  "exampleSchema =
     \<lparr>serialize = schemaNew,
      getMigrationsSince = (\<lambda>s. if s = schemaNew then Inr []
         else if s = schemaOld then Inr [''com.tldraw.shape/2'']
         else Inl ''target-version-too-new''),
      migrateStoreSnapshot = (\<lambda>s snapshot. if s = schemaNew then Inr snapshot
         else if s = schemaOld
           then Inr (map (\<lambda>(k, r). (k, migrateRecord r))
                  (filter (\<lambda>(k, r). typeName r \<noteq> ''legacy'') snapshot))
         else Inl ''target-version-too-new''),
      typeScope = (\<lambda>t. if t = ''shape'' \<or> t = ''page'' \<or> t = ''document'' then document
         else if t = ''instance_presence'' then presence_scope
         else session),
      validateRecord = (\<lambda>r. typeName r \<in> set knownTypes),
      createIntegrityChecker = (\<lambda>s.
         s @ map (\<lambda>r. (recId r, r))
               (filter (\<lambda>r. map_of s (recId r) = None) [defaultDocument, defaultPointer]))\<rparr>"

definition exampleEnv :: hook_env where
  "exampleEnv =
     \<lparr>schema = exampleSchema,
      clientID = 7,
      presenceDerivation = (\<lambda>pid s.
         Some \<lparr>recId = pid, typeName = ''instance_presence'', props = ''cursor''\<rparr>)\<rparr>"

definition r1 :: tlrecord where
  "r1 = \<lparr>recId = ''shape:r1'', typeName = ''shape'', props = ''box''\<rparr>"

definition r2 :: tlrecord where
  "r2 = \<lparr>recId = ''shape:r2'', typeName = ''shape'', props = ''arrow''\<rparr>"

definition camera :: tlrecord where
  "camera = \<lparr>recId = ''camera:page'', typeName = ''camera'', props = ''zoom''\<rparr>"

definition presenceA :: tlrecord where
  "presenceA = \<lparr>recId = ''instance_presence:12'', typeName = ''instance_presence'',
                props = ''red''\<rparr>"

definition presenceOwn :: tlrecord where
  "presenceOwn = \<lparr>recId = ''instance_presence:7'', typeName = ''instance_presence'',
                  props = ''blue''\<rparr>"

text \<open>A log that holds \<open>r1\<close> under a schema the client does not know.\<close>

definition futureState :: hook where
  "futureState = activate [] [(''shape:r1'', r1)] (Some schemaFuture) []"

text \<open>A log that holds \<open>r2\<close> only, next to a store that holds \<open>r1\<close> only.\<close>

definition remoteState :: hook where
  "remoteState = activate [(''shape:r1'', r1)] [(''shape:r2'', r2)] (Some schemaNew) []"

text \<open>A change event that names \<open>shape:r1\<close>, which the log does not hold, and \<open>shape:r2\<close>.\<close>

definition danglingChanges :: "(rid \<times> change) list" where
  "danglingChanges = [(''shape:r1'', ChangeAdd r1), (''shape:r2'', ChangeAdd r2)]"

text \<open>A presence of a record type the schema does not know.\<close>

definition presenceBad :: tlrecord where
  "presenceBad = \<lparr>recId = ''instance_presence:14'', typeName = ''cursor'', props = ''green''\<rparr>"

text \<open>
  A store that shows the presence of participant 12; the awareness states hold the local
  participant 7, participant 12, participant 13 without a presence and participant 14
  with a presence the schema rejects.
\<close>

definition presenceState :: hook where
  "presenceState =
     activate [(''instance_presence:12'', presenceA)] [] None
       [(7, \<lparr>presence = Some presenceOwn\<rparr>), (12, \<lparr>presence = Some presenceA\<rparr>),
        (13, \<lparr>presence = None\<rparr>), (14, \<lparr>presence = Some presenceBad\<rparr>)]"

text \<open>The same participants before any presence has reached the store.\<close>

definition presenceStart :: hook where
  "presenceStart = presenceState\<lparr>store := []\<rparr>"

text \<open>A change event for a log that holds everything the event names.\<close>

definition settledChanges :: "(rid \<times> change) list" where
  "settledChanges = [(''shape:r2'', ChangeAdd r2), (''shape:r1'', ChangeDelete r1)]"

text \<open>A room nobody has written to, and a room whose log holds \<open>r1\<close> under the current schema.\<close>

definition emptyRoom :: hook where
  "emptyRoom = activate [] [] None []"

definition sharedRoom :: hook where
  "sharedRoom = activate [] [(''shape:r1'', r1)] (Some schemaNew) []"

text \<open>A log written under the old schema: \<open>r1\<close> and a record of a type that is gone.\<close>

definition legacy :: tlrecord where
  "legacy = \<lparr>recId = ''legacy:x'', typeName = ''legacy'', props = ''gone''\<rparr>"

definition oldRoom :: hook where
  "oldRoom = activate [] [(''shape:r1'', r1), (''legacy:x'', legacy)] (Some schemaOld) []"

text \<open>
  The session goes through its first sync, then sees a marker of a newer schema; after that
  the user adds \<open>r2\<close> and a remote deletion of \<open>r1\<close> is reported.
\<close>

definition staleEvents :: "event list" where
  "staleEvents =
     [StatusEvent connected, SyncedEvent, MetaEvent (Some schemaFuture),
      LocalEdit \<lparr>added = [r2], updated = [], removed = []\<rparr>,
      ChangeEvent [(''shape:r1'', ChangeDelete r1)] False]"

text \<open>
  The events of the provider when a connection that has synced is lost: the provider
  emits \<^verbatim>\<open>synced\<close> whenever its synced state changes, so once with \<^verbatim>\<open>true\<close> after
  the \<^verbatim>\<open>connected\<close> status and once with \<^verbatim>\<open>false\<close> before the \<^verbatim>\<open>disconnected\<close>
  status.
\<close>

definition lossEvents :: "event list" where
  "lossEvents =
     [StatusEvent connected, SyncedEvent, SyncedEvent, StatusEvent disconnected]"

text \<open>A session that has synced with \<open>sharedRoom\<close> and then finds a marker of a newer schema.\<close>

definition staleState :: hook where
  "staleState =
     (run exampleEnv [StatusEvent connected, SyncedEvent] sharedRoom)
       \<lparr>meta := Some schemaFuture\<rparr>"

text \<open>
  A store and a log in step, with a camera that only the store has, and an edit that adds
  \<open>r2\<close>, moves the camera and removes \<open>r1\<close>.
\<close>

definition editState :: hook where
  "editState =
     activate [(''shape:r1'', r1), (''camera:page'', camera)] [(''shape:r1'', r1)]
       (Some schemaNew) []"

definition exampleEdit :: records_diff where
  "exampleEdit =
     \<lparr>added = [r2], updated = [(camera, camera\<lparr>props := ''pan''\<rparr>)], removed = [r1]\<rparr>"

section \<open>Properties\<close>

subsection \<open>The log as a map\<close>

lemma map_of_ykvSet: "map_of (ykvSet k v ys) = (map_of ys)(k \<mapsto> v)"
  by (rule ext) (simp add: ykvSet_def map_add_def AList.delete_conv split: option.splits)

lemma map_of_ykvDelete: "map_of (ykvDelete k ys) = (map_of ys)(k := None)"
  by (simp add: ykvDelete_def AList.delete_conv')

lemma fold_YSet:
  "fold applyLogOp (map (\<lambda>r. YSet (recId r) r) rs) (ys, m)
     = (fold (\<lambda>r. ykvSet (recId r) r) rs ys, m)"
  by (induction rs arbitrary: ys) simp_all

lemma fold_YDelete:
  "fold applyLogOp (map (\<lambda>r. YDelete (recId r)) rs) (ys, m)
     = (fold (\<lambda>r. ykvDelete (recId r)) rs ys, m)"
  by (induction rs arbitrary: ys) simp_all

lemma map_of_fold_ykvSet:
  "map_of (fold (\<lambda>r. ykvSet (recId r) r) rs ys)
     = map_of ys ++ map_of (rev (map (\<lambda>r. (recId r, r)) rs))"
proof (induction rs arbitrary: ys)
  case Nil
  then show ?case by simp
next
  case (Cons r rs)
  show ?case
    by (rule ext) (simp add: Cons.IH map_of_ykvSet map_add_def split: option.splits)
qed

lemma map_of_fold_ykvDelete:
  "map_of (fold (\<lambda>r. ykvDelete (recId r)) rs ys) k
     = (if k \<in> recId ` set rs then None else map_of ys k)"
  by (induction rs arbitrary: ys) (auto simp: map_of_ykvDelete)

lemma fold_ykvSet_frame:
  "k \<notin> recId ` set rs \<Longrightarrow> map_of (fold (\<lambda>r. ykvSet (recId r) r) rs l) k = map_of l k"
  by (induction rs arbitrary: l) (auto simp: map_of_ykvSet)

lemma map_of_rev_distinct:
  "distinct (map fst xs) \<Longrightarrow> map_of (rev xs) = map_of xs"
proof (induction xs)
  case Nil
  then show ?case by simp
next
  case (Cons kv xs)
  obtain k v where kv: "kv = (k, v)" by (cases kv)
  from Cons.prems have "map_of xs k = None" and "distinct (map fst xs)"
    by (simp_all add: kv map_of_eq_None_iff)
  with Cons.IH show ?case
    by (auto simp: kv map_add_def fun_eq_iff split: option.splits)
qed

lemma toString_7: "toString 7 = ''7''"
  by (simp add: toString.simps digitChar_def)

lemma toString_12: "toString 12 = ''12''"
  by (simp add: toString.simps digitChar_def)

lemma toString_13: "toString 13 = ''13''"
  by (simp add: toString.simps digitChar_def)

subsection \<open>Mirror equivalence under local edits\<close>

lemma put_step:
  assumes "keyedByScope sch docId s" and "map_of l = documentRecords sch s"
    and "isDocument sch r = docId (recId r)"
  shows "keyedByScope sch docId (AList.update (recId r) r s)"
    and "map_of (if isDocument sch r then ykvSet (recId r) r l else l)
           = documentRecords sch (AList.update (recId r) r s)"
proof -
  show "keyedByScope sch docId (AList.update (recId r) r s)"
    using assms(1,3) by (auto simp: keyedByScope_def update_conv')
  show "map_of (if isDocument sch r then ykvSet (recId r) r l else l)
           = documentRecords sch (AList.update (recId r) r s)"
  proof (rule ext)
    fix k
    show "map_of (if isDocument sch r then ykvSet (recId r) r l else l) k
           = documentRecords sch (AList.update (recId r) r s) k"
      using assms
      by (auto simp: keyedByScope_def documentRecords_def update_conv' map_of_ykvSet
          split: option.splits)
  qed
qed

lemma delete_step:
  assumes "keyedByScope sch docId s" and "map_of l = documentRecords sch s"
    and "isDocument sch r = docId (recId r)"
  shows "keyedByScope sch docId (AList.delete (recId r) s)"
    and "map_of (if isDocument sch r then ykvDelete (recId r) l else l)
           = documentRecords sch (AList.delete (recId r) s)"
proof -
  show "keyedByScope sch docId (AList.delete (recId r) s)"
    using assms(1) by (auto simp: keyedByScope_def delete_conv')
  show "map_of (if isDocument sch r then ykvDelete (recId r) l else l)
           = documentRecords sch (AList.delete (recId r) s)"
  proof (rule ext)
    fix k
    show "map_of (if isDocument sch r then ykvDelete (recId r) l else l) k
           = documentRecords sch (AList.delete (recId r) s) k"
      using assms
      by (auto simp: keyedByScope_def documentRecords_def delete_conv' map_of_ykvDelete
          split: option.splits)
  qed
qed

lemma put_fold:
  assumes "keyedByScope sch docId s" and "map_of l = documentRecords sch s"
    and "\<forall>r \<in> set rs. isDocument sch r = docId (recId r)"
  shows "keyedByScope sch docId (fold (\<lambda>r. AList.update (recId r) r) rs s)
     \<and> map_of (fold (\<lambda>r. ykvSet (recId r) r) (filter (isDocument sch) rs) l)
         = documentRecords sch (fold (\<lambda>r. AList.update (recId r) r) rs s)"
  using assms
proof (induction rs arbitrary: s l)
  case Nil
  then show ?case by simp
next
  case (Cons r rs)
  from Cons.prems have r: "isDocument sch r = docId (recId r)"
    and rs: "\<forall>r \<in> set rs. isDocument sch r = docId (recId r)"
    by simp_all
  note step = put_step [OF Cons.prems(1,2) r]
  from Cons.IH [OF step rs] show ?case by (cases "isDocument sch r") simp_all
qed

lemma delete_fold:
  assumes "keyedByScope sch docId s" and "map_of l = documentRecords sch s"
    and "\<forall>r \<in> set rs. isDocument sch r = docId (recId r)"
  shows "keyedByScope sch docId (fold (\<lambda>r. AList.delete (recId r)) rs s)
     \<and> map_of (fold (\<lambda>r. ykvDelete (recId r)) (filter (isDocument sch) rs) l)
         = documentRecords sch (fold (\<lambda>r. AList.delete (recId r)) rs s)"
  using assms
proof (induction rs arbitrary: s l)
  case Nil
  then show ?case by simp
next
  case (Cons r rs)
  from Cons.prems have r: "isDocument sch r = docId (recId r)"
    and rs: "\<forall>r \<in> set rs. isDocument sch r = docId (recId r)"
    by simp_all
  note step = delete_step [OF Cons.prems(1,2) r]
  from Cons.IH [OF step rs] show ?case by (cases "isDocument sch r") simp_all
qed

lemma fold_updated:
  "fold (\<lambda>(_, r). AList.update (recId r) r) ps s
     = fold (\<lambda>r. AList.update (recId r) r) (map snd ps) s"
  by (induction ps arbitrary: s) (simp_all add: case_prod_beta)

lemma filter_updated:
  "map snd (filter (\<lambda>(_, r). P r) ps) = filter P (map snd ps)"
  by (induction ps) auto

lemma syncOps_filtered:
  "fold applyLogOp (syncOps (filterChangesByScope sch d)) (l, m)
     = (fold (\<lambda>r. ykvDelete (recId r)) (filter (isDocument sch) (removed d))
          (fold (\<lambda>r. ykvSet (recId r) r) (filter (isDocument sch) (map snd (updated d)))
             (fold (\<lambda>r. ykvSet (recId r) r) (filter (isDocument sch) (added d)) l)), m)"
proof -
  have upd: "map (\<lambda>(_, r). YSet (recId r) r) ps = map (\<lambda>r. YSet (recId r) r) (map snd ps)"
    for ps :: "(tlrecord \<times> tlrecord) list"
    by (induction ps) auto
  show ?thesis
    unfolding syncOps_def filterChangesByScope_def
    by (simp add: upd fold_YSet fold_YDelete filter_updated del: map_map)
qed

lemma userEdit_yarray:
  "yarray (userEdit e d st)
     = fst (fold applyLogOp (syncOps (filterChangesByScope (schema e) d)) (yarray st, meta st))"
  by (auto simp: userEdit_def Let_def isEmptyDiff_def syncOps_def
      syncStoreChangesToYjsDoc_def transact_def split: prod.splits)

lemma userEdit_store: "store (userEdit e d st) = applyDiff d (store st)"
  by (simp add: userEdit_def Let_def syncStoreChangesToYjsDoc_def transact_def
      split: prod.splits)

lemma storeEmit_once: "storeListeners st = 1 \<Longrightarrow> storeEmit e d st = userEdit e d st"
  by (simp add: storeEmit_def userEdit_def Let_def)

lemma userEdit_mirror:
  assumes inv: "keyedByScope (schema e) docId (store st)" and m: "mirror e st"
    and sc: "\<forall>r \<in> set (diffRecords d). isDocument (schema e) r = docId (recId r)"
  shows "keyedByScope (schema e) docId (store (userEdit e d st)) \<and> mirror e (userEdit e d st)"
proof -
  let ?sch = "schema e"
  from sc have a: "\<forall>r \<in> set (added d). isDocument ?sch r = docId (recId r)"
    and u: "\<forall>r \<in> set (map snd (updated d)). isDocument ?sch r = docId (recId r)"
    and r: "\<forall>r \<in> set (removed d). isDocument ?sch r = docId (recId r)"
    by (simp_all add: diffRecords_def)
  from m have m0: "map_of (yarray st) = documentRecords ?sch (store st)"
    by (simp add: mirror_def)
  note s1 = put_fold [OF inv m0 a]
  note s2 = put_fold [OF conjunct1 [OF s1] conjunct2 [OF s1] u]
  note s3 = delete_fold [OF conjunct1 [OF s2] conjunct2 [OF s2] r]
  from s3 show ?thesis
    by (simp add: mirror_def userEdit_yarray userEdit_store syncOps_filtered applyDiff_def
        fold_updated)
qed

lemma userEdit_frame:
  assumes "k \<notin> recId ` set (diffRecords (filterChangesByScope (schema e) d))"
  shows "map_of (yarray (userEdit e d st)) k = map_of (yarray st) k"
proof -
  let ?P = "isDocument (schema e)"
  from assms have "k \<notin> recId ` set (filter ?P (added d))"
    and "k \<notin> recId ` set (filter ?P (map snd (updated d)))"
    and "k \<notin> recId ` set (filter ?P (removed d))"
    by (auto simp: diffRecords_def filterChangesByScope_def filter_updated [symmetric])
  then show ?thesis
    by (simp add: userEdit_yarray syncOps_filtered map_of_fold_ykvDelete fold_ykvSet_frame)
qed

lemma edits_mirror:
  assumes "keyedByScope (schema e) docId (store st)" and "mirror e st"
    and "\<forall>d \<in> set edits. \<forall>r \<in> set (diffRecords d). isDocument (schema e) r = docId (recId r)"
  shows "mirror e (fold (userEdit e) edits st)"
  using assms
proof (induction edits arbitrary: st)
  case Nil
  then show ?case by simp
next
  case (Cons d edits)
  from Cons.prems(3) have d: "\<forall>r \<in> set (diffRecords d). isDocument (schema e) r = docId (recId r)"
    and rest: "\<forall>d \<in> set edits. \<forall>r \<in> set (diffRecords d).
                 isDocument (schema e) r = docId (recId r)"
    by simp_all
  note step = userEdit_mirror [OF Cons.prems(1,2) d]
  from Cons.IH [OF conjunct1 [OF step] conjunct2 [OF step] rest] show ?case by simp
qed

lemma edits_frame:
  assumes "\<forall>d \<in> set edits. k \<notin> recId ` set (diffRecords (filterChangesByScope (schema e) d))"
  shows "map_of (yarray (fold (userEdit e) edits st)) k = map_of (yarray st) k"
  using assms by (induction edits arbitrary: st) (simp_all add: userEdit_frame)

text \<open>
  Claim C1. Start from a state in which the log holds exactly the store's records of
  document scope, every record of the store sits under its own id, and the scope of a
  record can be read off its id (\<open>docId\<close>), for the store and for the records the edits
  mention. Then after any sequence of user edits, each followed by the transaction of
  \<^verbatim>\<open>syncStoreChangesToYjsDoc\<close> on its document-scope changes, the log again holds exactly
  the store's records of document scope; and a key that no edit added, updated or removed
  in document scope has the entry it had.
\<close>

theorem mirror_equivalence:
  assumes "mirror e st"
    and "\<forall>(k, r) \<in> set (store st). k = recId r \<and> isDocument (schema e) r = docId k"
    and "\<forall>d \<in> set edits. \<forall>r \<in> set (diffRecords d). isDocument (schema e) r = docId (recId r)"
  shows "mirror e (fold (userEdit e) edits st)
     \<and> (\<forall>k. (\<forall>d \<in> set edits.
               k \<notin> recId ` set (diffRecords (filterChangesByScope (schema e) d)))
            \<longrightarrow> map_of (yarray (fold (userEdit e) edits st)) k = map_of (yarray st) k)"
proof -
  have "keyedByScope (schema e) docId (store st)"
    unfolding keyedByScope_def using assms(2) by (auto dest: map_of_SomeD)
  from edits_mirror [OF this assms(1,3)] edits_frame show ?thesis by blast
qed

lemma editState_mirror: "mirror exampleEnv editState"
  by (auto simp: mirror_def documentRecords_def editState_def activate_def exampleEnv_def
      exampleSchema_def isDocument_def r1_def camera_def fun_eq_iff)

lemma exampleEdit_run:
  "yarray (userEdit exampleEnv exampleEdit editState) = [(''shape:r2'', r2)]"
  "store (userEdit exampleEnv exampleEdit editState)
     = [(''camera:page'', camera\<lparr>props := ''pan''\<rparr>), (''shape:r2'', r2)]"
  "transactions (userEdit exampleEnv exampleEdit editState)
     = [[YSet ''shape:r2'' r2, YDelete ''shape:r1'']]"
  by (simp_all add: userEdit_def exampleEdit_def editState_def activate_def exampleEnv_def
      exampleSchema_def isDocument_def filterChangesByScope_def isEmptyDiff_def
      syncStoreChangesToYjsDoc_def syncOps_def transact_def applyDiff_def Let_def
      ykvSet_def ykvDelete_def r1_def r2_def camera_def)

theorem mirror_equivalence_witness:
  "mirror exampleEnv editState
   \<and> list_all (\<lambda>(k, r). k = recId r
         \<and> isDocument (schema exampleEnv) r = (k \<noteq> ''camera:page'')) (store editState)
   \<and> list_all (\<lambda>r. isDocument (schema exampleEnv) r = (recId r \<noteq> ''camera:page''))
         (diffRecords exampleEdit)
   \<and> mirror exampleEnv (fold (userEdit exampleEnv) [exampleEdit] editState)
   \<and> yarray (fold (userEdit exampleEnv) [exampleEdit] editState) = [(''shape:r2'', r2)]
   \<and> store (fold (userEdit exampleEnv) [exampleEdit] editState)
       = [(''camera:page'', camera\<lparr>props := ''pan''\<rparr>), (''shape:r2'', r2)]"
proof -
  have h2: "\<forall>(k, r) \<in> set (store editState).
      k = recId r \<and> isDocument (schema exampleEnv) r = (k \<noteq> ''camera:page'')"
    by (simp add: editState_def activate_def exampleEnv_def exampleSchema_def isDocument_def
        r1_def camera_def)
  have h3: "\<forall>d \<in> set [exampleEdit]. \<forall>r \<in> set (diffRecords d).
      isDocument (schema exampleEnv) r = (recId r \<noteq> ''camera:page'')"
    by (simp add: exampleEdit_def diffRecords_def exampleEnv_def exampleSchema_def
        isDocument_def r1_def r2_def camera_def)
  from mirror_equivalence [OF editState_mirror h2 h3]
  have "mirror exampleEnv (fold (userEdit exampleEnv) [exampleEdit] editState)"
    by (rule conjunct1)
  with editState_mirror h2 h3 show ?thesis
    by (simp add: exampleEdit_run list_all_iff)
qed

subsection \<open>Echo suppression\<close>

lemma emit_local_echo: "emit n (handleChange e changes True) st = st"
  by (induction n) (simp_all add: handleChange_def)

text \<open>
  Claim C2. A change event of the log whose transaction is local makes
  \<^verbatim>\<open>handleChange\<close> return at once: the state is as before, so there is no
  \<^verbatim>\<open>mergeRemoteChanges\<close>, \<^verbatim>\<open>put\<close> or \<^verbatim>\<open>remove\<close>, however many times the handler is
  registered. A local edit therefore adds exactly one transaction, and the echo of that
  transaction, whatever changes it reports, adds no merge and leaves the store alone.
\<close>

theorem echo_suppression:
  "handleChange e changes True st = (st, Returned)
   \<and> deliver e (ChangeEvent changes True) st = st
   \<and> (let st1 = syncStoreChangesToYjsDoc d st;
          st2 = fst (handleChange e echo True st1)
      in transactions st2 = transactions st @ [syncOps d]
         \<and> merges st2 = merges st \<and> store st2 = store st)"
  by (simp add: handleChange_def emit_local_echo syncStoreChangesToYjsDoc_def transact_def
      Let_def split: prod.splits)

theorem echo_suppression_witness:
  "handleChange exampleEnv settledChanges True remoteState = (remoteState, Returned)
   \<and> deliver exampleEnv (ChangeEvent settledChanges True) remoteState = remoteState
   \<and> merges (fst (handleChange exampleEnv settledChanges True
         (syncStoreChangesToYjsDoc exampleEdit remoteState))) = merges remoteState"
  using echo_suppression [of exampleEnv settledChanges remoteState exampleEdit settledChanges]
  by (simp add: Let_def)

subsection \<open>Applying a remote change event\<close>

lemma storePut_accepted:
  "list_all (putAccepts sch) vs
   \<Longrightarrow> storePut sch vs s = Inr (fold (\<lambda>p. AList.update (recId p) p) (List.map_filter id vs) s)"
proof (induction vs arbitrary: s)
  case Nil
  then show ?case by (simp add: map_filter_simps)
next
  case (Cons v vs)
  then show ?case by (cases v) (simp_all add: putAccepts_def map_filter_simps)
qed

lemma storePut_rejected:
  "\<not> list_all (putAccepts sch) vs
   \<Longrightarrow> storePut sch vs s = Inl TypeError \<or> storePut sch vs s = Inl ValidationError"
proof (induction vs arbitrary: s)
  case Nil
  then show ?case by simp
next
  case (Cons v vs)
  then show ?case by (cases v) (auto simp: putAccepts_def)
qed

lemma storePut_valid:
  "list_all (validateRecord sch) put
   \<Longrightarrow> storePut sch (map Some put) s = Inr (fold (\<lambda>p. AList.update (recId p) p) put s)"
  by (induction put arbitrary: s) simp_all

lemma storePut_invalid:
  "\<not> list_all (validateRecord sch) put \<Longrightarrow> storePut sch (map Some put) s = Inl ValidationError"
  by (induction put arbitrary: s) auto

lemma mergeRemoteChanges_accepted:
  assumes "list_all (putAccepts sch) staged"
  shows "mergeRemoteChanges sch (mergeOps remove staged) st
     = (st\<lparr>store := fold (\<lambda>p. AList.update (recId p) p) (List.map_filter id staged)
                      (fold AList.delete remove (store st)),
           merges := merges st @ [mergeOps remove staged]\<rparr>, Completed)"
proof (cases "staged = []")
  case True
  then show ?thesis
    by (cases "remove = []")
       (simp_all add: mergeRemoteChanges_def mergeOps_def storeRemove_def map_filter_simps)
next
  case False
  with storePut_accepted [OF assms] show ?thesis
    by (cases "remove = []") (simp_all add: mergeRemoteChanges_def mergeOps_def storeRemove_def)
qed

lemma mergeRemoteChanges_rejected:
  assumes "\<not> list_all (putAccepts sch) staged"
  shows "store (fst (mergeRemoteChanges sch (mergeOps remove staged) st)) = store st
     \<and> merges (fst (mergeRemoteChanges sch (mergeOps remove staged) st))
         = merges st @ [mergeOps remove staged]
     \<and> (snd (mergeRemoteChanges sch (mergeOps remove staged) st) = Threw TypeError
        \<or> snd (mergeRemoteChanges sch (mergeOps remove staged) st) = Threw ValidationError)"
proof -
  from assms have ne: "staged \<noteq> []" by auto
  have put: "storePut sch staged s = Inl TypeError \<or> storePut sch staged s = Inl ValidationError"
    for s using assms by (rule storePut_rejected)
  show ?thesis
    using ne put [of "store st"] put [of "fold AList.delete remove (store st)"]
    by (cases "remove = []")
       (auto simp: mergeRemoteChanges_def mergeOps_def storeRemove_def)
qed

lemma mergeRemoteChanges_valid:
  assumes "list_all (validateRecord sch) put"
  shows "mergeRemoteChanges sch (mergeOps remove (map Some put)) st
     = (st\<lparr>store := fold (\<lambda>p. AList.update (recId p) p) put
                      (fold AList.delete remove (store st)),
           merges := merges st @ [mergeOps remove (map Some put)]\<rparr>, Completed)"
  using storePut_valid [OF assms]
  by (cases "put = []"; cases "remove = []")
     (simp_all add: mergeRemoteChanges_def mergeOps_def storeRemove_def)

lemma mergeRemoteChanges_invalid:
  assumes "\<not> list_all (validateRecord sch) put"
  shows "mergeRemoteChanges sch (mergeOps remove (map Some put)) st
     = (st\<lparr>merges := merges st @ [mergeOps remove (map Some put)]\<rparr>, Threw ValidationError)"
proof -
  from assms have "put \<noteq> []" by auto
  with storePut_invalid [OF assms] show ?thesis
    by (cases "remove = []")
       (simp_all add: mergeRemoteChanges_def mergeOps_def storeRemove_def)
qed

lemma merges_mergeRemoteChanges:
  "merges (fst (mergeRemoteChanges sch ops st)) = merges st @ [ops]"
  by (simp add: mergeRemoteChanges_def split: sum.splits)

lemma fold_classify:
  "fold (classify ys) changes (remove, put)
     = (remove @ removeKeys changes, put @ map (ykvGet ys) (putKeys changes))"
proof (induction changes arbitrary: remove put)
  case Nil
  then show ?case by (simp add: removeKeys_def putKeys_def)
next
  case (Cons kc changes)
  obtain k c where kc: "kc = (k, c)" by (cases kc)
  show ?case
    using Cons.IH by (cases c) (simp_all add: kc removeKeys_def putKeys_def)
qed

lemma handleChange_eq:
  "handleChange e changes False st
     = mergeRemoteChanges (schema e)
         (mergeOps (removeKeys changes) (map (ykvGet (yarray st)) (putKeys changes))) st"
  by (simp add: handleChange_def fold_classify)

text \<open>
  Claim C3, as the code has it. \<^verbatim>\<open>handleChange\<close> stages one entry of \<^verbatim>\<open>put\<close> for
  every key whose action is add or update, namely whatever \<^verbatim>\<open>yStore.get\<close> returns,
  present or not, and one entry of \<^verbatim>\<open>remove\<close> for every deleted key, and hands both to
  the store in one \<^verbatim>\<open>mergeRemoteChanges\<close>. When every staged value is there and is
  accepted by the store, the handler completes and the store has the whole batch: the
  removals, then the fetched records. Otherwise \<^verbatim>\<open>store.put\<close> throws and the store is
  as before: nothing is skipped, and nothing of the batch is applied.
\<close>

theorem remote_changes_staged:
  "(let staged = map (ykvGet (yarray st)) (putKeys changes);
        remove = removeKeys changes;
        st' = fst (handleChange e changes False st);
        out = snd (handleChange e changes False st)
    in fold (classify (yarray st)) changes ([], []) = (remove, staged)
       \<and> length staged = length (putKeys changes)
       \<and> merges st' = merges st @ [mergeOps remove staged]
       \<and> (if list_all (putAccepts (schema e)) staged
          then out = Completed
               \<and> store st' = fold (\<lambda>p. AList.update (recId p) p) (List.map_filter id staged)
                               (fold AList.delete remove (store st))
          else (out = Threw TypeError \<or> out = Threw ValidationError)
               \<and> store st' = store st))"
proof (cases "list_all (putAccepts (schema e)) (map (ykvGet (yarray st)) (putKeys changes))")
  case True
  from mergeRemoteChanges_accepted [OF True] True show ?thesis
    by (simp add: Let_def handleChange_eq fold_classify)
next
  case False
  from mergeRemoteChanges_rejected [OF False] False show ?thesis
    by (simp add: Let_def handleChange_eq fold_classify)
qed

lemma settled_run:
  "map (ykvGet (yarray remoteState)) (putKeys settledChanges) = [Some r2]"
  "removeKeys settledChanges = [''shape:r1'']"
  "putAccepts (schema exampleEnv) (Some r2)"
  "store remoteState = [(''shape:r1'', r1)]"
  "merges remoteState = []"
  by (simp_all add: putKeys_def removeKeys_def settledChanges_def ykvGet_def remoteState_def
      activate_def putAccepts_def exampleEnv_def exampleSchema_def knownTypes_def r2_def)

lemma dangling_run:
  "map (ykvGet (yarray remoteState)) (putKeys danglingChanges) = [None, Some r2]"
  "removeKeys danglingChanges = []"
  "\<not> putAccepts (schema exampleEnv) None"
  by (simp_all add: putKeys_def removeKeys_def danglingChanges_def ykvGet_def remoteState_def
      activate_def putAccepts_def)

lemma example_ids:
  "recId r1 = ''shape:r1''" "recId r2 = ''shape:r2''"
  by (simp_all add: r1_def r2_def)

theorem remote_changes_staged_witness:
  "snd (handleChange exampleEnv settledChanges False remoteState) = Completed
   \<and> merges (fst (handleChange exampleEnv settledChanges False remoteState))
       = [[StoreRemove [''shape:r1''], StorePut [Some r2]]]
   \<and> store (fst (handleChange exampleEnv settledChanges False remoteState))
       = [(''shape:r2'', r2)]
   \<and> merges (fst (handleChange exampleEnv danglingChanges False remoteState))
       = [[StorePut [None, Some r2]]]
   \<and> store (fst (handleChange exampleEnv danglingChanges False remoteState))
       = [(''shape:r1'', r1)]"
proof -
  note settled = remote_changes_staged [of remoteState settledChanges exampleEnv]
  note dangling = remote_changes_staged [of remoteState danglingChanges exampleEnv]
  from settled have s:
    "snd (handleChange exampleEnv settledChanges False remoteState) = Completed"
    "merges (fst (handleChange exampleEnv settledChanges False remoteState))
       = [[StoreRemove [''shape:r1''], StorePut [Some r2]]]"
    "store (fst (handleChange exampleEnv settledChanges False remoteState))
       = [(''shape:r2'', r2)]"
    unfolding Let_def settled_run
    by (simp_all add: settled_run mergeOps_def map_filter_simps example_ids)
  from dangling have d:
    "merges (fst (handleChange exampleEnv danglingChanges False remoteState))
       = [[StorePut [None, Some r2]]]"
    "store (fst (handleChange exampleEnv danglingChanges False remoteState))
       = [(''shape:r1'', r1)]"
    unfolding Let_def dangling_run
    by (simp_all add: dangling_run settled_run mergeOps_def)
  from s d show ?thesis by simp
qed

text \<open>
  The claim as the specification words it fails. The event \<open>danglingChanges\<close> names
  \<open>shape:r1\<close>, for which the log has no value: the \<^verbatim>\<open>undefined\<close> is staged for
  \<^verbatim>\<open>put\<close> next to \<open>r2\<close>, \<^verbatim>\<open>store.put\<close> throws, and the store is as before, without
  the record \<open>r2\<close> that the log does hold.
\<close>

theorem dangling_change_counterexample:
  "ykvGet (yarray remoteState) ''shape:r1'' = None
   \<and> fold (classify (yarray remoteState)) danglingChanges ([], []) = ([], [None, Some r2])
   \<and> snd (handleChange exampleEnv danglingChanges False remoteState) = Threw TypeError
   \<and> store (fst (handleChange exampleEnv danglingChanges False remoteState))
       = store remoteState
   \<and> map_of (store (fst (handleChange exampleEnv danglingChanges False remoteState)))
       ''shape:r2'' = None"
  by (simp add: handleChange_def danglingChanges_def remoteState_def activate_def ykvGet_def
      mergeOps_def mergeRemoteChanges_def r1_def r2_def)

subsection \<open>Initial reconciliation of a non-empty log\<close>

lemma registerListeners_keeps:
  "store (registerListeners e st) = store st"
  "yarray (registerListeners e st) = yarray st"
  "meta (registerListeners e st) = meta st"
  "transactions (registerListeners e st) = transactions st"
  "merges (registerListeners e st) = merges st"
  "storeWithStatus (registerListeners e st) = storeWithStatus st"
  "storeListeners (registerListeners e st) = Suc (storeListeners st)"
  by (simp_all add: registerListeners_def)

lemma transact_reconcileOps:
  "yarray (transact (reconcileOps records migrated s) st)
     = fold (\<lambda>r. ykvSet (recId r) r) (map snd migrated)
         (fold (\<lambda>r. ykvDelete (recId r))
            (filter (\<lambda>r. map_of migrated (recId r) = None) records) (yarray st))"
  "meta (transact (reconcileOps records migrated s) st) = Some s"
  "transactions (transact (reconcileOps records migrated s) st)
     = transactions st @ [reconcileOps records migrated s]"
  "store (transact ops st) = store st"
  "storeListeners (transact ops st) = storeListeners st"
  by (simp_all add: transact_def reconcileOps_def fold_YSet fold_YDelete Let_def
      split: prod.splits del: map_map)

lemma keyed_entries:
  assumes "\<forall>(k, r) \<in> set xs. k = recId r"
  shows "map (\<lambda>r. (recId r, r)) (map snd xs) = xs"
  using assms by (induction xs) auto

lemma reconciled_log:
  assumes logKeys: "\<forall>(k, r) \<in> set ys. k = recId r"
    and keys: "\<forall>(k, r) \<in> set migrated. k = recId r"
    and dist: "distinct (map fst migrated)"
  shows "map_of (fold (\<lambda>r. ykvSet (recId r) r) (map snd migrated)
           (fold (\<lambda>r. ykvDelete (recId r))
              (filter (\<lambda>r. map_of migrated (recId r) = None) (map snd ys)) ys))
         = map_of migrated"
proof (rule ext)
  fix k
  let ?dels = "filter (\<lambda>r. map_of migrated (recId r) = None) (map snd ys)"
  have rev: "map_of (rev migrated) = map_of migrated"
    using dist by (rule map_of_rev_distinct)
  have left: "map_of (fold (\<lambda>r. ykvDelete (recId r)) ?dels ys) k = None"
    if none: "map_of migrated k = None"
  proof (cases "map_of ys k")
    case None
    then show ?thesis by (simp add: map_of_fold_ykvDelete)
  next
    case (Some r)
    then have mem: "(k, r) \<in> set ys" by (rule map_of_SomeD)
    with logKeys have "k = recId r" by auto
    with mem none have "k \<in> recId ` set ?dels" by force
    then show ?thesis by (simp add: map_of_fold_ykvDelete)
  qed
  show "map_of (fold (\<lambda>r. ykvSet (recId r) r) (map snd migrated)
           (fold (\<lambda>r. ykvDelete (recId r)) ?dels ys)) k = map_of migrated k"
    using left
    by (simp add: map_of_fold_ykvSet keyed_entries [OF keys] rev map_add_def
        split: option.splits del: map_map)
qed

text \<open>Loading a snapshot whose records the schema accepts.\<close>

lemma update_fresh:
  "k \<notin> fst ` set ys \<Longrightarrow> AList.update k v ys = ys @ [(k, v)]"
  by (induction ys) auto

lemma fold_update_keyed:
  assumes "\<forall>(k, r) \<in> set xs. k = recId r" and "distinct (map fst (ys @ xs))"
  shows "fold (\<lambda>r. AList.update (recId r) r) (map snd xs) ys = ys @ xs"
  using assms
proof (induction xs arbitrary: ys)
  case Nil
  then show ?case by simp
next
  case (Cons kr xs)
  obtain k r where kr: "kr = (k, r)" by (cases kr)
  from Cons.prems kr have k: "k = recId r" and fresh: "k \<notin> fst ` set ys"
    and rest: "\<forall>(k, r) \<in> set xs. k = recId r"
    and dist: "distinct (map fst ((ys @ [(k, r)]) @ xs))"
    by auto
  from Cons.IH [OF rest dist] show ?case
    by (simp add: kr k [symmetric] update_fresh [OF fresh])
qed

lemma loadSnapshot_valid:
  assumes "\<forall>(k, r) \<in> set snapshot. k = recId r \<and> validateRecord sch r"
    and "distinct (map fst snapshot)"
  shows "loadSnapshot sch snapshot s = Inr (createIntegrityChecker sch snapshot)"
proof -
  from assms(1) have valid: "list_all (validateRecord sch) (map snd snapshot)"
    and keyed: "\<forall>(k, r) \<in> set snapshot. k = recId r"
    by (auto simp: list_all_iff)
  from fold_update_keyed [OF keyed, of "[]"] assms(2)
  have "fold (\<lambda>r. AList.update (recId r) r) (map snd snapshot) [] = snapshot" by simp
  with storePut_valid [OF valid, of "[]"] show ?thesis
    by (simp add: loadSnapshot_def)
qed

text \<open>What the listener writes when the store reports the diff of the load.\<close>

lemma map_of_filter_distinct:
  assumes "distinct (map fst entries)"
  shows "map_of (filter keep entries) key
           = (case map_of entries key of
                Some r \<Rightarrow> (if keep (key, r) then Some r else None)
              | None \<Rightarrow> None)"
  using assms
proof (induction entries)
  case Nil
  then show ?case by simp
next
  case (Cons entry entries)
  obtain k' r' where entry: "entry = (k', r')" by (cases entry)
  from Cons.prems have fresh: "map_of entries k' = None"
    and rest: "distinct (map fst entries)"
    by (simp_all add: entry map_of_eq_None_iff)
  from Cons.IH [OF rest] fresh show ?case
    by (auto simp: entry split: option.splits)
qed

lemma keyed_filter_entries:
  assumes "\<forall>(k, r) \<in> set xs. k = recId r"
  shows "map (\<lambda>r. (recId r, r)) (filter P (map snd (filter Q xs)))
           = filter (\<lambda>(k, r). P r \<and> Q (k, r)) xs"
  using assms by (induction xs) auto

lemma storeDiff_parts:
  "added (storeDiff old new) = map snd (filter (\<lambda>(k, r). map_of old k = None) new)"
  "map snd (updated (storeDiff old new))
     = map snd (filter (\<lambda>(k, r). map_of old k \<noteq> None) new)"
  "removed (storeDiff old new) = map snd (filter (\<lambda>(k, p). map_of new k = None) old)"
proof -
  show "map snd (updated (storeDiff old new))
     = map snd (filter (\<lambda>(k, r). map_of old k \<noteq> None) new)"
    by (induction new) (auto simp: storeDiff_def split: option.splits)
qed (simp_all add: storeDiff_def)

lemma loaded_log:
  assumes l1: "map_of l = map_of migrated"
    and oldKeys: "\<forall>(k, r) \<in> set old. k = recId r"
    and keys: "\<forall>(k, r) \<in> set loaded. k = recId r"
    and dist: "distinct (map fst loaded)"
    and sub: "set migrated \<subseteq> set loaded"
  shows "map_of (fst (fold applyLogOp
             (syncOps (filterChangesByScope sch (storeDiff old loaded))) (l, m)))
         = map_of migrated ++ documentRecords sch loaded"
proof (rule ext)
  fix k
  let ?doc = "isDocument sch"
  let ?A = "filter (\<lambda>(k, r). ?doc r \<and> map_of old k = None) loaded"
  let ?U = "filter (\<lambda>(k, r). ?doc r \<and> map_of old k \<noteq> None) loaded"
  let ?R = "filter ?doc (map snd (filter (\<lambda>(k, p). map_of loaded k = None) old))"
  have a: "map (\<lambda>r. (recId r, r)) (filter ?doc (added (storeDiff old loaded))) = ?A"
    by (simp add: storeDiff_parts keyed_filter_entries [OF keys])
  have u: "map (\<lambda>r. (recId r, r)) (filter ?doc (map snd (updated (storeDiff old loaded)))) = ?U"
    by (simp add: storeDiff_parts keyed_filter_entries [OF keys])
  have dA: "distinct (map fst ?A)" and dU: "distinct (map fst ?U)"
    using dist by (simp_all add: distinct_map_filter)
  have mA: "map_of (rev ?A) k
      = (case map_of loaded k of None \<Rightarrow> None
         | Some v \<Rightarrow> if ?doc v \<and> map_of old k = None then Some v else None)"
    by (simp only: map_of_rev_distinct [OF dA] map_of_filter_distinct [OF dist] prod.case)
  have mU: "map_of (rev ?U) k
      = (case map_of loaded k of None \<Rightarrow> None
         | Some v \<Rightarrow> if ?doc v \<and> map_of old k \<noteq> None then Some v else None)"
    by (simp only: map_of_rev_distinct [OF dU] map_of_filter_distinct [OF dist] prod.case)
  have sets: "map_of (fold (\<lambda>r. ykvSet (recId r) r)
                  (filter ?doc (map snd (updated (storeDiff old loaded))))
                (fold (\<lambda>r. ykvSet (recId r) r)
                   (filter ?doc (added (storeDiff old loaded))) l)) k
              = (map_of migrated ++ documentRecords sch loaded) k"
    unfolding map_of_fold_ykvSet a u map_add_def mA mU l1
    by (simp add: documentRecords_def split: option.splits)
  have gone: "(map_of migrated ++ documentRecords sch loaded) k = None"
    if "k \<in> recId ` set ?R"
  proof -
    from that obtain k' p where kp: "(k', p) \<in> set old" "map_of loaded k' = None" "recId p = k"
      by auto
    with oldKeys have none: "map_of loaded k = None" by auto
    have "map_of migrated k = None"
    proof (rule ccontr)
      assume "map_of migrated k \<noteq> None"
      then obtain r where "map_of migrated k = Some r" by auto
      then have "(k, r) \<in> set migrated" by (rule map_of_SomeD)
      with sub have "(k, r) \<in> set loaded" by auto
      with none show False by (simp add: map_of_eq_None_iff image_iff) force
    qed
    with none show ?thesis by (simp add: map_add_def documentRecords_def)
  qed
  have dels: "map_of (fst (fold applyLogOp
             (syncOps (filterChangesByScope sch (storeDiff old loaded))) (l, m))) k
         = (if k \<in> recId ` set ?R then None
            else map_of (fold (\<lambda>r. ykvSet (recId r) r)
                  (filter ?doc (map snd (updated (storeDiff old loaded))))
                (fold (\<lambda>r. ykvSet (recId r) r)
                   (filter ?doc (added (storeDiff old loaded))) l)) k)"
    by (simp only: syncOps_filtered map_of_fold_ykvDelete storeDiff_parts(3) fst_conv)
  show "map_of (fst (fold applyLogOp
             (syncOps (filterChangesByScope sch (storeDiff old loaded))) (l, m))) k
         = (map_of migrated ++ documentRecords sch loaded) k"
  proof (cases "k \<in> recId ` set ?R")
    case True
    have "map_of (fst (fold applyLogOp
             (syncOps (filterChangesByScope sch (storeDiff old loaded))) (l, m))) k = None"
      unfolding dels using True by (simp only: if_True)
    with gone [OF True] show ?thesis by (simp only:)
  next
    case False
    from sets show ?thesis unfolding dels using False by (simp only: if_False)
  qed
qed

lemma notifyListeners_once:
  assumes "storeListeners st = 1"
  shows "yarray (notifyListeners e d st)
           = fst (fold applyLogOp (syncOps (filterChangesByScope (schema e) d))
                    (yarray st, meta st))"
    and "meta (notifyListeners e d st) = meta st"
    and "store (notifyListeners e d st) = store st"
    and "transactions (notifyListeners e d st)
           = transactions st
             @ (if isEmptyDiff (filterChangesByScope (schema e) d) then []
                else [syncOps (filterChangesByScope (schema e) d)])"
proof -
  let ?filtered = "filterChangesByScope (schema e) d"
  have pair: "fold applyLogOp (syncOps ?filtered) (yarray st, meta st)
      = (fst (fold applyLogOp (syncOps ?filtered) (yarray st, meta st)), meta st)"
    by (simp add: syncOps_filtered)
  have noOps: "syncOps ?filtered = []" if "isEmptyDiff ?filtered"
    using that by (simp add: isEmptyDiff_def syncOps_def)
  have called: "notifyListeners e d st = transact (syncOps ?filtered) st"
    if "\<not> isEmptyDiff ?filtered"
    using that assms by (simp add: notifyListeners_def Let_def syncStoreChangesToYjsDoc_def)
  have idle: "notifyListeners e d st = st" if "isEmptyDiff ?filtered"
    using that by (simp add: notifyListeners_def Let_def)
  have t: "yarray (transact (syncOps ?filtered) st)
             = fst (fold applyLogOp (syncOps ?filtered) (yarray st, meta st))"
    "meta (transact (syncOps ?filtered) st) = meta st"
    "store (transact (syncOps ?filtered) st) = store st"
    "transactions (transact (syncOps ?filtered) st) = transactions st @ [syncOps ?filtered]"
    unfolding transact_def by (subst pair, simp)+
  show "yarray (notifyListeners e d st)
           = fst (fold applyLogOp (syncOps ?filtered) (yarray st, meta st))"
  proof (cases "isEmptyDiff ?filtered")
    case True
    have "syncOps ?filtered = []" by (rule noOps [OF True])
    then have "fst (fold applyLogOp (syncOps ?filtered) (yarray st, meta st)) = yarray st"
      by (simp only: fold_simps fst_conv id_apply)
    with idle [OF True] show ?thesis by (simp only:)
  next
    case False
    from called [OF False] t(1) show ?thesis by simp
  qed
  show "meta (notifyListeners e d st) = meta st"
    using t(2) called idle by (cases "isEmptyDiff ?filtered") simp_all
  show "store (notifyListeners e d st) = store st"
    using t(3) called idle by (cases "isEmptyDiff ?filtered") simp_all
  show "transactions (notifyListeners e d st)
           = transactions st @ (if isEmptyDiff ?filtered then [] else [syncOps ?filtered])"
    using t(4) called idle by (cases "isEmptyDiff ?filtered") simp_all
qed

text \<open>
  Claim C4, as the code has it. Let the log be non-empty with a schema marker, let the
  migration of its records under that marker succeed with the snapshot \<open>migrated\<close>, whose
  records the store accepts, and let the entries of the log, of the store and of the
  snapshot sit under the ids of their records, in a session whose store listener is not
  yet registered. Then \<^verbatim>\<open>handleSync\<close> completes. One transaction deletes the records
  that the snapshot does not have, sets every record of the snapshot and sets the marker.
  The load then leaves the store with \<open>loaded\<close>, the snapshot completed by the default
  records of the store, and the store reports the load to the listener that
  \<^verbatim>\<open>handleSync\<close> has registered, which writes its document-scope part in a second
  transaction. At the end the log holds the snapshot together with the document-scope
  records of the loaded store, and the marker is the local serialized schema.
\<close>

theorem reconcile_migrates_forward:
  assumes "storeListeners st = 0"
    and "yarray st \<noteq> []" and "meta st = Some theirSchema"
    and "migrateStoreSnapshot (schema e) theirSchema (snapshotOf (map snd (yarray st)))
           = Inr migrated"
    and "\<forall>(k, r) \<in> set (yarray st). k = recId r"
    and "\<forall>(k, r) \<in> set (store st). k = recId r"
    and "\<forall>(k, r) \<in> set migrated. k = recId r \<and> validateRecord (schema e) r"
    and "distinct (map fst migrated)"
    and "createIntegrityChecker (schema e) migrated = loaded"
    and "\<forall>(k, r) \<in> set loaded. k = recId r"
    and "distinct (map fst loaded)"
    and "set migrated \<subseteq> set loaded"
  shows "(let st' = fst (handleSync e st);
              written = filterChangesByScope (schema e) (storeDiff (store st) loaded)
          in snd (handleSync e st) = Completed
             \<and> transactions st' = transactions st
                 @ [reconcileOps (map snd (yarray st)) migrated (serialize (schema e))]
                 @ (if isEmptyDiff written then [] else [syncOps written])
             \<and> map_of (yarray st') = map_of migrated ++ documentRecords (schema e) loaded
             \<and> meta st' = Some (serialize (schema e))
             \<and> store st' = loaded
             \<and> storeWithStatus st' = SyncedRemote online)"
proof -
  let ?reg = "registerListeners e st"
  let ?st1 = "transact (reconcileOps (map snd (yarray st)) migrated (serialize (schema e))) ?reg"
  let ?st2 = "notifyListeners e (storeDiff (store st) loaded) (?st1\<lparr>store := loaded\<rparr>)"
  from assms(7) have keyed: "\<forall>(k, r) \<in> set migrated. k = recId r" by auto
  have load: "loadSnapshot (schema e) migrated s = Inr loaded" for s
    using loadSnapshot_valid [OF assms(7,8)] assms(9) by simp
  have run: "handleSync e st = (?st2\<lparr>storeWithStatus := SyncedRemote online\<rparr>, Completed)"
    using assms(2-4)
    by (simp add: handleSync_def Let_def registerListeners_keeps transact_reconcileOps load)
  have one: "storeListeners (?st1\<lparr>store := loaded\<rparr>) = 1"
    using assms(1) by (simp add: transact_reconcileOps registerListeners_keeps)
  have l1: "map_of (yarray (?st1\<lparr>store := loaded\<rparr>)) = map_of migrated"
    using reconciled_log [OF assms(5) keyed assms(8)]
    by (simp add: transact_reconcileOps registerListeners_keeps)
  note n = notifyListeners_once [OF one, of e "storeDiff (store st) loaded"]
  have log: "map_of (yarray ?st2) = map_of migrated ++ documentRecords (schema e) loaded"
    unfolding n(1) by (rule loaded_log [OF l1 assms(6,10,11,12)])
  show ?thesis
    unfolding Let_def run
    using log n(2-4)
    by (simp add: transact_reconcileOps registerListeners_keeps)
qed

lemma oldRoom_migration:
  "migrateStoreSnapshot (schema exampleEnv) schemaOld (snapshotOf (map snd (yarray oldRoom)))
     = Inr [(''shape:r1'', migrateRecord r1)]"
  by (simp add: oldRoom_def activate_def exampleEnv_def exampleSchema_def snapshotOf_def
      schemaOld_def schemaNew_def r1_def legacy_def)

lemma oldRoom_sync:
  "snd (handleSync exampleEnv oldRoom) = Completed"
  "store (fst (handleSync exampleEnv oldRoom))
     = [(''shape:r1'', migrateRecord r1), (''document:document'', defaultDocument),
        (''pointer:pointer'', defaultPointer)]"
  "yarray (fst (handleSync exampleEnv oldRoom))
     = [(''shape:r1'', migrateRecord r1), (''document:document'', defaultDocument)]"
  "transactions (fst (handleSync exampleEnv oldRoom))
     = [[YDelete ''legacy:x'', YSet ''shape:r1'' (migrateRecord r1), MetaSet schemaNew],
        [YSet ''shape:r1'' (migrateRecord r1), YSet ''document:document'' defaultDocument]]"
  "meta (fst (handleSync exampleEnv oldRoom)) = Some schemaNew"
  by (simp_all add: handleSync_def Let_def registerListeners_def transact_def
      reconcileOps_def snapshotOf_def loadSnapshot_def storeDiff_def notifyListeners_def
      filterChangesByScope_def isEmptyDiff_def isDocument_def syncStoreChangesToYjsDoc_def
      syncOps_def ykvSet_def ykvDelete_def
      oldRoom_def activate_def exampleEnv_def exampleSchema_def schemaOld_def schemaNew_def
      knownTypes_def defaultDocument_def defaultPointer_def
      r1_def legacy_def migrateRecord_def)

theorem reconcile_migrates_forward_witness:
  "yarray oldRoom = [(''shape:r1'', r1), (''legacy:x'', legacy)]
   \<and> meta oldRoom = Some schemaOld
   \<and> snd (handleSync exampleEnv oldRoom) = Completed
   \<and> map_of (yarray (fst (handleSync exampleEnv oldRoom)))
       = map_of [(''shape:r1'', migrateRecord r1)]
           ++ documentRecords (schema exampleEnv)
                [(''shape:r1'', migrateRecord r1), (''document:document'', defaultDocument),
                 (''pointer:pointer'', defaultPointer)]
   \<and> yarray (fst (handleSync exampleEnv oldRoom))
       = [(''shape:r1'', migrateRecord r1), (''document:document'', defaultDocument)]
   \<and> meta (fst (handleSync exampleEnv oldRoom)) = Some schemaNew
   \<and> store (fst (handleSync exampleEnv oldRoom))
       = [(''shape:r1'', migrateRecord r1), (''document:document'', defaultDocument),
          (''pointer:pointer'', defaultPointer)]"
proof -
  let ?loaded = "[(''shape:r1'', migrateRecord r1), (''document:document'', defaultDocument),
                  (''pointer:pointer'', defaultPointer)]"
  have h1: "storeListeners oldRoom = 0" and h2: "yarray oldRoom \<noteq> []"
    and h3: "meta oldRoom = Some schemaOld"
    and h5: "\<forall>(k, r) \<in> set (yarray oldRoom). k = recId r"
    and h6: "\<forall>(k, r) \<in> set (store oldRoom). k = recId r"
    by (simp_all add: oldRoom_def activate_def r1_def legacy_def)
  have h7: "\<forall>(k, r) \<in> set [(''shape:r1'', migrateRecord r1)].
      k = recId r \<and> validateRecord (schema exampleEnv) r"
    and h8: "distinct (map fst [(''shape:r1'', migrateRecord r1)])"
    by (simp_all add: migrateRecord_def r1_def exampleEnv_def exampleSchema_def knownTypes_def)
  have h9: "createIntegrityChecker (schema exampleEnv) [(''shape:r1'', migrateRecord r1)]
      = ?loaded"
    by (simp add: exampleEnv_def exampleSchema_def defaultDocument_def defaultPointer_def)
  have h10: "\<forall>(k, r) \<in> set ?loaded. k = recId r" and h11: "distinct (map fst ?loaded)"
    and h12: "set [(''shape:r1'', migrateRecord r1)] \<subseteq> set ?loaded"
    by (simp_all add: migrateRecord_def r1_def defaultDocument_def defaultPointer_def)
  from reconcile_migrates_forward
    [OF h1 h2 h3 oldRoom_migration h5 h6 h7 h8 h9 h10 h11 h12]
  have "map_of (yarray (fst (handleSync exampleEnv oldRoom)))
       = map_of [(''shape:r1'', migrateRecord r1)]
           ++ documentRecords (schema exampleEnv) ?loaded"
    unfolding Let_def by blast
  then show ?thesis
    by (simp add: oldRoom_sync) (simp add: oldRoom_def activate_def)
qed

text \<open>
  The claim as the specification words it fails. In \<open>oldRoom\<close> the log holds \<open>r1\<close> and a
  record the migration drops, and the migration turns \<open>r1\<close> into \<open>migrateRecord r1\<close>.
  After \<^verbatim>\<open>handleSync\<close> the store does not hold the migrated snapshot alone but also the
  default records, the listener has written a second transaction, and the log holds the
  default document record next to the migrated \<open>r1\<close>.
\<close>

theorem reconcile_defaults_counterexample:
  "migrateStoreSnapshot (schema exampleEnv) schemaOld (snapshotOf (map snd (yarray oldRoom)))
     = Inr [(''shape:r1'', migrateRecord r1)]
   \<and> store (fst (handleSync exampleEnv oldRoom))
       = [(''shape:r1'', migrateRecord r1), (''document:document'', defaultDocument),
          (''pointer:pointer'', defaultPointer)]
   \<and> length (transactions (fst (handleSync exampleEnv oldRoom))) = 2
   \<and> yarray (fst (handleSync exampleEnv oldRoom))
       = [(''shape:r1'', migrateRecord r1), (''document:document'', defaultDocument)]"
  by (simp add: oldRoom_migration oldRoom_sync)

text \<open>
  Claim C5. When the log is non-empty and the migration of its records under the shared
  marker reports an error, \<^verbatim>\<open>handleSync\<close> leaves through its \<^verbatim>\<open>return\<close>: the store,
  the log and the marker are as before, no transaction and no merge took place, and the
  exposed status is unchanged.
\<close>

theorem migration_error_aborts:
  assumes "yarray st \<noteq> []"
    and "meta st = Some theirSchema"
    and "migrateStoreSnapshot (schema e) theirSchema (snapshotOf (map snd (yarray st)))
           = Inl reason"
  shows "snd (handleSync e st) = Returned
    \<and> store (fst (handleSync e st)) = store st
    \<and> yarray (fst (handleSync e st)) = yarray st
    \<and> meta (fst (handleSync e st)) = meta st
    \<and> transactions (fst (handleSync e st)) = transactions st
    \<and> merges (fst (handleSync e st)) = merges st
    \<and> storeWithStatus (fst (handleSync e st)) = storeWithStatus st"
  using assms by (simp add: handleSync_def registerListeners_keeps Let_def)

theorem migration_error_aborts_witness:
  "yarray futureState = [(''shape:r1'', r1)]
   \<and> meta futureState = Some schemaFuture
   \<and> migrateStoreSnapshot (schema exampleEnv) schemaFuture
        (snapshotOf (map snd (yarray futureState))) = Inl ''target-version-too-new''
   \<and> snd (handleSync exampleEnv futureState) = Returned
   \<and> store (fst (handleSync exampleEnv futureState)) = []
   \<and> yarray (fst (handleSync exampleEnv futureState)) = [(''shape:r1'', r1)]
   \<and> meta (fst (handleSync exampleEnv futureState)) = Some schemaFuture
   \<and> transactions (fst (handleSync exampleEnv futureState)) = []
   \<and> storeWithStatus (fst (handleSync exampleEnv futureState)) = Loading"
proof -
  have h1: "yarray futureState \<noteq> []" and h2: "meta futureState = Some schemaFuture"
    by (simp_all add: futureState_def activate_def)
  have h3: "migrateStoreSnapshot (schema exampleEnv) schemaFuture
      (snapshotOf (map snd (yarray futureState))) = Inl ''target-version-too-new''"
    by (simp add: exampleEnv_def exampleSchema_def schemaFuture_def schemaNew_def
        schemaOld_def)
  from migration_error_aborts [OF h1 h2 h3] h2 h3 show ?thesis
    by (simp add: futureState_def activate_def)
qed

subsection \<open>What the handlers leave alone\<close>

lemma emit_preserves:
  assumes "\<And>s. f (fst (h s)) = f s" and "\<And>s x. f (s\<lparr>uncaught := x\<rparr>) = f s"
  shows "f (emit n h st) = f st"
proof (induction n arbitrary: st)
  case 0
  then show ?case by simp
next
  case (Suc n)
  obtain st' out where h: "h st = (st', out)" by (cases "h st")
  with assms(1) [of st] have "f st' = f st" by simp
  with h Suc assms(2) show ?case by (cases out) simp_all
qed

lemma funpow_preserves:
  assumes "\<And>s. f (g s) = f s"
  shows "f ((g ^^ n) st) = f st"
  using assms by (induction n) simp_all

lemma storeEmit_preserves:
  assumes "\<And>ops s. f (transact ops s) = f s" and "\<And>s x. f (s\<lparr>store := x\<rparr>) = f s"
  shows "f (storeEmit e d st) = f st"
  by (simp add: storeEmit_def Let_def syncStoreChangesToYjsDoc_def funpow_preserves assms)

lemma notifyListeners_preserves:
  assumes "\<And>ops s. f (transact ops s) = f s"
  shows "f (notifyListeners e d st) = f st"
  by (simp add: notifyListeners_def Let_def syncStoreChangesToYjsDoc_def funpow_preserves assms)

lemma transact_lifecycle [simp]:
  "hasConnectedBefore (transact ops st) = hasConnectedBefore st"
  "syncedListener (transact ops st) = syncedListener st"
  "syncRuns (transact ops st) = syncRuns st"
  "storeWithStatus (transact ops st) = storeWithStatus st"
  by (simp_all add: transact_def Let_def split: prod.splits)

lemma mergeRemoteChanges_lifecycle [simp]:
  "hasConnectedBefore (fst (mergeRemoteChanges sch ops st)) = hasConnectedBefore st"
  "syncedListener (fst (mergeRemoteChanges sch ops st)) = syncedListener st"
  "syncRuns (fst (mergeRemoteChanges sch ops st)) = syncRuns st"
  "storeWithStatus (fst (mergeRemoteChanges sch ops st)) = storeWithStatus st"
  by (simp_all add: mergeRemoteChanges_def split: sum.splits)

lemma handleChange_lifecycle [simp]:
  "hasConnectedBefore (fst (handleChange e cs l st)) = hasConnectedBefore st"
  "syncedListener (fst (handleChange e cs l st)) = syncedListener st"
  "syncRuns (fst (handleChange e cs l st)) = syncRuns st"
  "storeWithStatus (fst (handleChange e cs l st)) = storeWithStatus st"
  by (simp_all add: handleChange_def Let_def split: prod.splits)

lemma handleUpdate_lifecycle [simp]:
  "hasConnectedBefore (fst (handleUpdate e u st)) = hasConnectedBefore st"
  "syncedListener (fst (handleUpdate e u st)) = syncedListener st"
  "syncRuns (fst (handleUpdate e u st)) = syncRuns st"
  "storeWithStatus (fst (handleUpdate e u st)) = storeWithStatus st"
  by (simp_all add: handleUpdate_def Let_def)

lemma docDestroy_lifecycle [simp]:
  "hasConnectedBefore (docDestroy e st) = hasConnectedBefore st"
  "syncedListener (docDestroy e st) = syncedListener st"
  "syncRuns (docDestroy e st) = syncRuns st"
  "storeWithStatus (docDestroy e st) = storeWithStatus st"
  by (simp_all add: docDestroy_def awarenessDestroy_def Let_def emit_preserves)

lemma handleMetaUpdate_lifecycle [simp]:
  "hasConnectedBefore (fst (handleMetaUpdate e st)) = hasConnectedBefore st"
  "syncedListener (fst (handleMetaUpdate e st)) = syncedListener st"
  "syncRuns (fst (handleMetaUpdate e st)) = syncRuns st"
  "storeWithStatus (fst (handleMetaUpdate e st)) = storeWithStatus st"
  by (simp_all add: handleMetaUpdate_def split: option.splits sum.splits)

lemma handleSync_lifecycle [simp]:
  "hasConnectedBefore (fst (handleSync e st)) = hasConnectedBefore st"
  "syncedListener (fst (handleSync e st)) = syncedListener st"
  "syncRuns (fst (handleSync e st)) = Suc (syncRuns st)"
  by (simp_all add: handleSync_def registerListeners_def Let_def notifyListeners_preserves
      split: option.splits sum.splits)

lemma handleSync_status:
  "storeWithStatus (fst (handleSync e st))
     = (if snd (handleSync e st) = Completed then SyncedRemote online else storeWithStatus st)"
  by (simp add: handleSync_def registerListeners_def Let_def split: option.splits sum.splits)

lemma run_Cons: "run e (ev # evs) st = run e evs (deliver e ev st)"
  by (simp add: run_def)

lemma run_append: "run e (xs @ ys) st = run e ys (run e xs st)"
  by (simp add: run_def)

subsection \<open>The exposed status\<close>

lemma deliver_status:
  "storeWithStatus (deliver e ev st)
     = (if ev = StatusEvent disconnected then SyncedRemote offline
        else if ev = SyncedEvent \<and> syncedListener st \<and> snd (handleSync e st) = Completed
        then SyncedRemote online
        else storeWithStatus st)"
proof (cases ev)
  case (StatusEvent s)
  then show ?thesis by (cases s) (simp_all add: handleStatusChange_def Let_def)
next
  case SyncedEvent
  obtain st' out where h: "handleSync e st = (st', out)" by (cases "handleSync e st")
  with handleSync_status [of e st]
  have "storeWithStatus st' = (if out = Completed then SyncedRemote online else storeWithStatus st)"
    by simp
  with h SyncedEvent show ?thesis by (cases out) simp_all
next
  case (LocalEdit d)
  then show ?thesis by (simp add: storeEmit_preserves)
next
  case (ChangeEvent cs l)
  then show ?thesis by (simp add: emit_preserves)
next
  case (AwarenessEvent u)
  then show ?thesis by (simp add: emit_preserves)
next
  case (MetaEvent m)
  then show ?thesis by (simp add: emit_preserves)
qed

lemma run_never_loading_again:
  "storeWithStatus st \<noteq> Loading \<Longrightarrow> storeWithStatus (run e evs st) \<noteq> Loading"
  by (induction evs arbitrary: st) (simp_all add: run_def deliver_status)

lemma run_first_exit:
  assumes "storeWithStatus st = Loading" and "storeWithStatus (run e evs st) \<noteq> Loading"
  shows "\<exists>pre ev post. evs = pre @ ev # post
     \<and> storeWithStatus (run e pre st) = Loading
     \<and> (ev = StatusEvent disconnected
        \<or> (ev = SyncedEvent \<and> syncedListener (run e pre st)
            \<and> snd (handleSync e (run e pre st)) = Completed))"
  using assms
proof (induction evs arbitrary: st)
  case Nil
  then show ?case by (simp add: run_def)
next
  case (Cons ev evs)
  show ?case
  proof (cases "storeWithStatus (deliver e ev st) = Loading")
    case True
    from Cons.IH [OF True] Cons.prems(2)
    obtain pre ev' post where p: "evs = pre @ ev' # post"
      "storeWithStatus (run e pre (deliver e ev st)) = Loading"
      "ev' = StatusEvent disconnected
        \<or> (ev' = SyncedEvent \<and> syncedListener (run e pre (deliver e ev st))
            \<and> snd (handleSync e (run e pre (deliver e ev st))) = Completed)"
      by (auto simp: run_Cons)
    have "ev # evs = (ev # pre) @ ev' # post" using p(1) by simp
    with p(2,3) show ?thesis unfolding run_Cons [symmetric] by blast
  next
    case False
    with Cons.prems(1) have "ev = StatusEvent disconnected
        \<or> (ev = SyncedEvent \<and> syncedListener st \<and> snd (handleSync e st) = Completed)"
      by (simp add: deliver_status split: if_splits)
    moreover have "ev # evs = [] @ ev # evs" by simp
    moreover have "storeWithStatus (run e [] st) = Loading"
      using Cons.prems(1) by (simp add: run_def)
    ultimately show ?thesis by (metis run_def fold_simps(1) id_apply)
  qed
qed

text \<open>
  Claim C6, as the code has it. Once the exposed status is not \<^verbatim>\<open>loading\<close> it is never
  \<^verbatim>\<open>loading\<close> again, whatever events follow. And when a run of events takes the status
  from \<^verbatim>\<open>loading\<close> to something else, the status was \<^verbatim>\<open>loading\<close> up to an event of
  the run that is either a \<^verbatim>\<open>disconnected\<close> status or a \<^verbatim>\<open>synced\<close> event on which
  \<^verbatim>\<open>handleSync\<close> was registered and ran to completion: nothing else leaves
  \<^verbatim>\<open>loading\<close>.
\<close>

theorem loading_until_first_exit:
  "(storeWithStatus st \<noteq> Loading \<longrightarrow> storeWithStatus (run e evs st) \<noteq> Loading)
   \<and> (storeWithStatus st = Loading \<and> storeWithStatus (run e evs st) \<noteq> Loading \<longrightarrow>
        (\<exists>pre ev post. evs = pre @ ev # post
           \<and> storeWithStatus (run e pre st) = Loading
           \<and> (ev = StatusEvent disconnected
              \<or> (ev = SyncedEvent \<and> syncedListener (run e pre st)
                  \<and> snd (handleSync e (run e pre st)) = Completed))))"
  using run_never_loading_again run_first_exit by blast

lemma emptyRoom_runs:
  "storeWithStatus emptyRoom = Loading"
  "storeWithStatus (run exampleEnv [StatusEvent connected, SyncedEvent] emptyRoom)
     = SyncedRemote online"
  "storeWithStatus (run exampleEnv [StatusEvent disconnected] emptyRoom) = SyncedRemote offline"
  "syncRuns (run exampleEnv [StatusEvent disconnected] emptyRoom) = 0"
  by (simp_all add: run_def emptyRoom_def activate_def handleStatusChange_def handleSync_def
      registerListeners_def Let_def transact_def seedOps_def allRecords_def
      exampleEnv_def exampleSchema_def)

theorem loading_until_first_exit_witness:
  "storeWithStatus emptyRoom = Loading
   \<and> storeWithStatus (run exampleEnv [StatusEvent connected, SyncedEvent] emptyRoom)
       = SyncedRemote online
   \<and> (\<exists>pre ev post. [StatusEvent connected, SyncedEvent] = pre @ ev # post
         \<and> storeWithStatus (run exampleEnv pre emptyRoom) = Loading
         \<and> (ev = StatusEvent disconnected
            \<or> (ev = SyncedEvent \<and> syncedListener (run exampleEnv pre emptyRoom)
                \<and> snd (handleSync exampleEnv (run exampleEnv pre emptyRoom)) = Completed)))
   \<and> storeWithStatus (run exampleEnv [StatusEvent disconnected] emptyRoom) \<noteq> Loading
   \<and> storeWithStatus
        (run exampleEnv [SyncedEvent] (run exampleEnv [StatusEvent disconnected] emptyRoom))
       \<noteq> Loading"
proof -
  note first = loading_until_first_exit
    [of emptyRoom exampleEnv "[StatusEvent connected, SyncedEvent]"]
  note later = loading_until_first_exit
    [of "run exampleEnv [StatusEvent disconnected] emptyRoom" exampleEnv "[SyncedEvent]"]
  from first later show ?thesis
    by (simp add: emptyRoom_runs)
qed

text \<open>
  The claim as the specification words it fails: a \<^verbatim>\<open>disconnected\<close> status that
  arrives before anything else takes the status from \<^verbatim>\<open>loading\<close> to synced and
  offline, although \<^verbatim>\<open>handleSync\<close> has not run.
\<close>

theorem early_disconnect_counterexample:
  "storeWithStatus emptyRoom = Loading
   \<and> storeWithStatus (run exampleEnv [StatusEvent disconnected] emptyRoom)
       = SyncedRemote offline
   \<and> syncRuns (run exampleEnv [StatusEvent disconnected] emptyRoom) = 0"
  by (simp add: emptyRoom_runs)

subsection \<open>How often the initial synchronisation runs\<close>

lemma deliver_flags:
  assumes "\<not> isConnected ev"
  shows "hasConnectedBefore (deliver e ev st) = hasConnectedBefore st"
    and "syncedListener (deliver e ev st) = syncedListener st"
proof -
  show "hasConnectedBefore (deliver e ev st) = hasConnectedBefore st"
  proof (cases ev)
    case (StatusEvent s)
    with assms show ?thesis by (cases s) (simp_all add: handleStatusChange_def)
  next
    case SyncedEvent
    then show ?thesis by (simp add: emit_preserves)
  next
    case (LocalEdit d)
    then show ?thesis by (simp add: storeEmit_preserves)
  next
    case (ChangeEvent cs l)
    then show ?thesis by (simp add: emit_preserves)
  next
    case (AwarenessEvent u)
    then show ?thesis by (simp add: emit_preserves)
  next
    case (MetaEvent m)
    then show ?thesis by (simp add: emit_preserves)
  qed
  show "syncedListener (deliver e ev st) = syncedListener st"
  proof (cases ev)
    case (StatusEvent s)
    with assms show ?thesis by (cases s) (simp_all add: handleStatusChange_def)
  next
    case SyncedEvent
    then show ?thesis by (simp add: emit_preserves)
  next
    case (LocalEdit d)
    then show ?thesis by (simp add: storeEmit_preserves)
  next
    case (ChangeEvent cs l)
    then show ?thesis by (simp add: emit_preserves)
  next
    case (AwarenessEvent u)
    then show ?thesis by (simp add: emit_preserves)
  next
    case (MetaEvent m)
    then show ?thesis by (simp add: emit_preserves)
  qed
qed

lemma deliver_connected:
  assumes "isConnected ev"
  shows "hasConnectedBefore (deliver e ev st)"
    and "syncedListener (deliver e ev st) = (\<not> hasConnectedBefore st)"
    and "syncRuns (deliver e ev st) = syncRuns st"
proof -
  from assms have ev: "ev = StatusEvent connected"
    by (cases ev rule: isConnected.cases) simp_all
  show "hasConnectedBefore (deliver e ev st)"
    and "syncedListener (deliver e ev st) = (\<not> hasConnectedBefore st)"
    and "syncRuns (deliver e ev st) = syncRuns st"
    by (simp_all add: ev handleStatusChange_def Let_def)
qed

lemma emit_handleSync_runs:
  "syncRuns (emit (Suc 0) (handleSync e) st) = Suc (syncRuns st)"
proof -
  obtain st' out where h: "handleSync e st = (st', out)" by (cases "handleSync e st")
  have "syncRuns (fst (handleSync e st)) = Suc (syncRuns st)" by simp
  with h have "syncRuns st' = Suc (syncRuns st)" by simp
  with h show ?thesis by (cases out) simp_all
qed

lemma deliver_runs:
  "syncRuns (deliver e ev st)
     = (if isSynced ev \<and> syncedListener st then Suc (syncRuns st) else syncRuns st)"
proof (cases ev)
  case (StatusEvent s)
  then show ?thesis by (cases s) (simp_all add: handleStatusChange_def Let_def)
next
  case SyncedEvent
  then show ?thesis using emit_handleSync_runs [of e st] by simp
next
  case (LocalEdit d)
  then show ?thesis by (simp add: storeEmit_preserves)
next
  case (ChangeEvent cs l)
  then show ?thesis by (simp add: emit_preserves)
next
  case (AwarenessEvent u)
  then show ?thesis by (simp add: emit_preserves)
next
  case (MetaEvent m)
  then show ?thesis by (simp add: emit_preserves)
qed

lemma run_before_connected:
  assumes "\<forall>ev \<in> set evs. \<not> isConnected ev"
  shows "hasConnectedBefore (run e evs st) = hasConnectedBefore st
     \<and> syncedListener (run e evs st) = syncedListener st
     \<and> syncRuns (run e evs st)
         = syncRuns st + (if syncedListener st then length (filter isSynced evs) else 0)"
  using assms
proof (induction evs arbitrary: st)
  case Nil
  then show ?case by (simp add: run_def)
next
  case (Cons ev evs)
  then have nc: "\<not> isConnected ev" and rest: "\<forall>ev \<in> set evs. \<not> isConnected ev"
    by simp_all
  show ?case
    using Cons.IH [OF rest, of "deliver e ev st"] deliver_flags [OF nc, of e st]
    by (simp add: run_Cons deliver_runs)
qed

lemma run_after_reconnect:
  assumes "hasConnectedBefore st" and "\<not> syncedListener st"
  shows "syncRuns (run e evs st) = syncRuns st"
  using assms
proof (induction evs arbitrary: st)
  case Nil
  then show ?case by (simp add: run_def)
next
  case (Cons ev evs)
  show ?case
  proof (cases "isConnected ev")
    case True
    with Cons.prems Cons.IH [of "deliver e ev st"] show ?thesis
      by (simp add: run_Cons deliver_connected)
  next
    case False
    with Cons.prems Cons.IH [of "deliver e ev st"] show ?thesis
      by (simp add: run_Cons deliver_flags deliver_runs)
  qed
qed

text \<open>
  The guard of the hook is on \<^verbatim>\<open>connected\<close>: \<^verbatim>\<open>handleSync\<close> is put on \<^verbatim>\<open>synced\<close>
  at the first \<^verbatim>\<open>connected\<close> status and taken off at the next one, and its own run
  does not take it off. From a state in which no \<^verbatim>\<open>connected\<close> status has been seen,
  its body therefore runs once for every \<^verbatim>\<open>synced\<close> event between the first
  \<^verbatim>\<open>connected\<close> status and the next one, and for no other.
\<close>

lemma sync_runs_in_window:
  assumes "\<not> hasConnectedBefore st" and "\<not> syncedListener st"
  shows "syncRuns (run e evs st) = syncRuns st + length (filter isSynced (syncWindow evs))"
proof -
  let ?P = "\<lambda>ev. \<not> isConnected ev"
  let ?pre = "takeWhile ?P evs"
  let ?st1 = "run e ?pre st"
  have pre: "\<forall>ev \<in> set ?pre. \<not> isConnected ev"
    by (auto dest: set_takeWhileD)
  note p1 = run_before_connected [OF pre, of e st]
  show ?thesis
  proof (cases "dropWhile ?P evs")
    case Nil
    then have "run e evs st = ?st1"
      by (metis append_Nil2 takeWhile_dropWhile_id)
    moreover have "syncWindow evs = []"
      unfolding syncWindow_def by (simp only: Nil list.sel takeWhile.simps)
    ultimately show ?thesis using p1 assms by simp
  next
    case (Cons c rest)
    then have c: "isConnected c"
      using hd_dropWhile [of ?P evs] by force
    have evs: "evs = ?pre @ c # rest"
      using Cons by (metis takeWhile_dropWhile_id)
    let ?st2 = "deliver e c ?st1"
    from p1 assms have f1: "\<not> hasConnectedBefore ?st1" "syncRuns ?st1 = syncRuns st"
      by simp_all
    from deliver_connected [OF c, of e ?st1] f1
    have f2: "hasConnectedBefore ?st2" "syncedListener ?st2" "syncRuns ?st2 = syncRuns st"
      by simp_all
    let ?win = "takeWhile ?P rest"
    let ?st3 = "run e ?win ?st2"
    have win: "\<forall>ev \<in> set ?win. \<not> isConnected ev"
      by (auto dest: set_takeWhileD)
    from run_before_connected [OF win, of e ?st2] f2
    have f3: "hasConnectedBefore ?st3" "syncedListener ?st3"
      "syncRuns ?st3 = syncRuns st + length (filter isSynced ?win)"
      by simp_all
    have w: "syncWindow evs = ?win"
      by (simp add: syncWindow_def Cons)
    have "run e evs st = run e (dropWhile ?P rest) ?st3"
    proof -
      have "run e evs st = run e (?win @ dropWhile ?P rest) ?st2"
        by (subst evs) (simp add: run_append run_Cons)
      then show ?thesis by (simp only: run_append)
    qed
    moreover have "syncRuns (run e (dropWhile ?P rest) ?st3) = syncRuns ?st3"
    proof (cases "dropWhile ?P rest")
      case Nil
      show ?thesis unfolding Nil by (simp add: run_def)
    next
      case (Cons c2 rest2)
      then have c2: "isConnected c2"
        using hd_dropWhile [of ?P rest] by force
      from deliver_connected [OF c2, of e ?st3] f3
      have "hasConnectedBefore (deliver e c2 ?st3)" "\<not> syncedListener (deliver e c2 ?st3)"
        "syncRuns (deliver e c2 ?st3) = syncRuns ?st3"
        by simp_all
      with run_after_reconnect [of "deliver e c2 ?st3" e rest2] Cons show ?thesis
        by (simp add: run_Cons)
    qed
    ultimately show ?thesis using f3 w by simp
  qed
qed

text \<open>
  Claim C7 does not hold of the code. In \<open>lossEvents\<close>, the events of one connection
  that syncs and is then lost, the body of \<^verbatim>\<open>handleSync\<close> runs twice, so every
  listener is registered twice, and an edit of the user that follows is written to the
  log in two transactions. And when a second \<^verbatim>\<open>connected\<close> status arrives before the
  first \<^verbatim>\<open>synced\<close> event, the body never runs and the status stays \<^verbatim>\<open>loading\<close>.
\<close>

theorem handleSync_runs_twice:
  "syncRuns (run exampleEnv lossEvents sharedRoom) = 2
   \<and> storeListeners (run exampleEnv lossEvents sharedRoom) = 2
   \<and> changeListeners (run exampleEnv lossEvents sharedRoom) = 2
   \<and> updateListeners (run exampleEnv lossEvents sharedRoom) = 2
   \<and> length (transactions
         (run exampleEnv (lossEvents @ [LocalEdit \<lparr>added = [r2], updated = [], removed = []\<rparr>])
            sharedRoom))
       = length (transactions (run exampleEnv lossEvents sharedRoom)) + 2
   \<and> syncRuns (run exampleEnv [StatusEvent connected, StatusEvent connected, SyncedEvent]
         sharedRoom) = 0
   \<and> storeWithStatus (run exampleEnv [StatusEvent connected, StatusEvent connected, SyncedEvent]
         sharedRoom) = Loading"
  by (simp add: run_def lossEvents_def sharedRoom_def activate_def handleStatusChange_def
      handleSync_def registerListeners_def Let_def transact_def reconcileOps_def
      snapshotOf_def loadSnapshot_def storeDiff_def notifyListeners_def
      exampleEnv_def exampleSchema_def knownTypes_def defaultDocument_def defaultPointer_def
      schemaNew_def schemaOld_def r1_def r2_def ykvSet_def ykvDelete_def
      storeEmit_def applyDiff_def filterChangesByScope_def
      isDocument_def isEmptyDiff_def syncStoreChangesToYjsDoc_def syncOps_def)

subsection \<open>A marker of a schema the client does not have\<close>

lemma handleUpdate_removed:
  "handleUpdate e \<lparr>addedClients = [], updatedClients = [], removedClients = [c]\<rparr> st
     = (st\<lparr>store := AList.delete (createId (toString c)) (store st),
           merges := merges st @ [[StoreRemove [createId (toString c)]]]\<rparr>, Completed)"
  by (simp add: handleUpdate_def Let_def mergeRemoteChanges_def mergeOps_def storeRemove_def)

lemma emit_removed:
  "store (emit n (handleUpdate e
             \<lparr>addedClients = [], updatedClients = [], removedClients = [c]\<rparr>) st)
     = (if n = 0 then store st else AList.delete (createId (toString c)) (store st))
   \<and> merges (emit n (handleUpdate e
             \<lparr>addedClients = [], updatedClients = [], removedClients = [c]\<rparr>) st)
     = merges st @ replicate n [StoreRemove [createId (toString c)]]"
proof (induction n arbitrary: st)
  case 0
  then show ?case by simp
next
  case (Suc n)
  show ?case
    using Suc.IH [of "st\<lparr>store := AList.delete (createId (toString c)) (store st),
           merges := merges st @ [[StoreRemove [createId (toString c)]]]\<rparr>"]
    by (simp add: handleUpdate_removed delete_idem replicate_append_same)
qed

lemma handleUpdate_keeps:
  "yarray (fst (handleUpdate e u st)) = yarray st"
  "meta (fst (handleUpdate e u st)) = meta st"
  "transactions (fst (handleUpdate e u st)) = transactions st"
  "storeListeners (fst (handleUpdate e u st)) = storeListeners st"
  "changeListeners (fst (handleUpdate e u st)) = changeListeners st"
  "metaObservers (fst (handleUpdate e u st)) = metaObservers st"
  "unsubs (fst (handleUpdate e u st)) = unsubs st"
  "alerts (fst (handleUpdate e u st)) = alerts st"
  "docDestroyed (fst (handleUpdate e u st)) = docDestroyed st"
  "awarenessStates (fst (handleUpdate e u st)) = awarenessStates st"
  by (simp_all add: handleUpdate_def Let_def mergeRemoteChanges_def split: sum.splits)

lemma docDestroy_fields:
  "docDestroyed (docDestroy e st)"
  "updateListeners (docDestroy e st) = 0"
  "awarenessStates (docDestroy e st) = AList.delete (clientID e) (awarenessStates st)"
  "merges (docDestroy e st)
     = merges st @ replicate (updateListeners st) [StoreRemove [presenceId e]]"
  "store (docDestroy e st)
     = (if updateListeners st = 0 then store st else AList.delete (presenceId e) (store st))"
  "alerts (docDestroy e st) = alerts st"
  "storeListeners (docDestroy e st) = storeListeners st"
  "changeListeners (docDestroy e st) = changeListeners st"
  "metaObservers (docDestroy e st) = metaObservers st"
  "unsubs (docDestroy e st) = unsubs st"
  "yarray (docDestroy e st) = yarray st"
  "meta (docDestroy e st) = meta st"
  "transactions (docDestroy e st) = transactions st"
  by (simp_all add: docDestroy_def awarenessDestroy_def Let_def emit_removed presenceId_def
      emit_preserves handleUpdate_keeps)

text \<open>
  Claim C8, as the code has it. When the marker is present and
  \<^verbatim>\<open>getMigrationsSince\<close> fails or returns at least one migration,
  \<^verbatim>\<open>handleMetaUpdate\<close> raises the alert and destroys the document. Destroying the
  document destroys the awareness: the local awareness state is removed, every registered
  presence handler is called once more with the local participant as removed, which is a
  merge that removes the local presence id from the store, and the presence handler is
  taken off. The store listener, the change handler of the log and the observer of the
  marker stay registered, the disposers are not run, and the log and the marker are as
  before.
\<close>

theorem stale_schema_alert:
  assumes "meta st = Some theirSchema"
    and "(\<exists>err. getMigrationsSince (schema e) theirSchema = Inl err)
         \<or> (\<exists>ms. getMigrationsSince (schema e) theirSchema = Inr ms \<and> ms \<noteq> [])"
  shows "(let st' = fst (handleMetaUpdate e st)
          in snd (handleMetaUpdate e st) = Completed
             \<and> alerts st' = alerts st @ [''Please refresh the page, schema is updated'']
             \<and> docDestroyed st'
             \<and> awarenessStates st' = AList.delete (clientID e) (awarenessStates st)
             \<and> merges st'
                 = merges st @ replicate (updateListeners st) [StoreRemove [presenceId e]]
             \<and> store st'
                 = (if updateListeners st = 0 then store st
                    else AList.delete (presenceId e) (store st))
             \<and> updateListeners st' = 0
             \<and> storeListeners st' = storeListeners st
             \<and> changeListeners st' = changeListeners st
             \<and> metaObservers st' = metaObservers st
             \<and> unsubs st' = unsubs st
             \<and> yarray st' = yarray st \<and> meta st' = meta st
             \<and> transactions st' = transactions st)"
proof -
  have "handleMetaUpdate e st
      = (docDestroy e
           (st\<lparr>alerts := alerts st @ [''Please refresh the page, schema is updated'']\<rparr>),
         Completed)"
    using assms by (auto simp: handleMetaUpdate_def)
  then show ?thesis by (simp add: Let_def docDestroy_fields)
qed

lemma staleState_fields:
  "meta staleState = Some schemaFuture"
  "updateListeners staleState = 1"
  "storeListeners staleState = 1"
  "changeListeners staleState = 1"
  "metaObservers staleState = 1"
  "merges staleState = []"
  "alerts staleState = []"
  "map_of (awarenessStates staleState) 7
     = Some \<lparr>presence = Some \<lparr>recId = ''instance_presence:7'',
         typeName = ''instance_presence'', props = ''cursor''\<rparr>\<rparr>"
  "presenceId exampleEnv = ''instance_presence:7''"
  "clientID exampleEnv = 7"
  by (simp_all add: staleState_def run_def sharedRoom_def activate_def handleStatusChange_def
      handleSync_def registerListeners_def Let_def transact_def reconcileOps_def
      snapshotOf_def loadSnapshot_def storeDiff_def notifyListeners_def
      exampleEnv_def exampleSchema_def knownTypes_def defaultDocument_def defaultPointer_def
      schemaNew_def schemaOld_def r1_def ykvSet_def ykvDelete_def
      filterChangesByScope_def isDocument_def isEmptyDiff_def syncStoreChangesToYjsDoc_def
      syncOps_def presenceId_def createId_def toString_7)

theorem stale_schema_alert_witness:
  "meta staleState = Some schemaFuture
   \<and> getMigrationsSince (schema exampleEnv) schemaFuture = Inl ''target-version-too-new''
   \<and> updateListeners staleState = 1
   \<and> snd (handleMetaUpdate exampleEnv staleState) = Completed
   \<and> alerts (fst (handleMetaUpdate exampleEnv staleState))
       = [''Please refresh the page, schema is updated'']
   \<and> docDestroyed (fst (handleMetaUpdate exampleEnv staleState))
   \<and> map_of (awarenessStates (fst (handleMetaUpdate exampleEnv staleState))) 7 = None
   \<and> merges (fst (handleMetaUpdate exampleEnv staleState))
       = [[StoreRemove [''instance_presence:7'']]]
   \<and> updateListeners (fst (handleMetaUpdate exampleEnv staleState)) = 0
   \<and> storeListeners (fst (handleMetaUpdate exampleEnv staleState)) = 1
   \<and> changeListeners (fst (handleMetaUpdate exampleEnv staleState)) = 1"
proof -
  have g: "getMigrationsSince (schema exampleEnv) schemaFuture = Inl ''target-version-too-new''"
    by (simp add: exampleEnv_def exampleSchema_def schemaFuture_def schemaNew_def
        schemaOld_def)
  then have h2: "(\<exists>err. getMigrationsSince (schema exampleEnv) schemaFuture = Inl err)
         \<or> (\<exists>ms. getMigrationsSince (schema exampleEnv) schemaFuture = Inr ms \<and> ms \<noteq> [])"
    by simp
  from stale_schema_alert [OF staleState_fields(1) h2] g show ?thesis
    by (simp add: Let_def staleState_fields delete_conv')
qed

text \<open>
  The claim as the specification words it fails. In \<open>staleEvents\<close> the session is synced,
  then observes a marker for which \<^verbatim>\<open>getMigrationsSince\<close> fails; the document is
  destroyed, but the store listener and the change handler are still registered: the
  record the user adds next is written to the log, and the remote deletion reported after
  that is merged into the store.
\<close>

theorem stale_session_counterexample:
  "getMigrationsSince (schema exampleEnv) schemaFuture = Inl ''target-version-too-new''
   \<and> docDestroyed (run exampleEnv (take 3 staleEvents) sharedRoom)
   \<and> storeListeners (run exampleEnv (take 3 staleEvents) sharedRoom) = 1
   \<and> changeListeners (run exampleEnv (take 3 staleEvents) sharedRoom) = 1
   \<and> map_of (yarray (run exampleEnv (take 3 staleEvents) sharedRoom)) ''shape:r2'' = None
   \<and> map_of (yarray (run exampleEnv (take 4 staleEvents) sharedRoom)) ''shape:r2'' = Some r2
   \<and> map_of (store (run exampleEnv (take 4 staleEvents) sharedRoom)) ''shape:r1'' = Some r1
   \<and> map_of (store (run exampleEnv staleEvents sharedRoom)) ''shape:r1'' = None"
  by (simp add: run_def staleEvents_def sharedRoom_def activate_def handleStatusChange_def
      handleSync_def registerListeners_def Let_def transact_def reconcileOps_def
      snapshotOf_def loadSnapshot_def storeDiff_def notifyListeners_def
      exampleEnv_def exampleSchema_def knownTypes_def defaultDocument_def defaultPointer_def
      schemaNew_def schemaFuture_def schemaOld_def r1_def r2_def ykvSet_def ykvDelete_def
      handleMetaUpdate_def docDestroy_def awarenessDestroy_def handleUpdate_def
      presenceId_def createId_def toString_7
      storeEmit_def applyDiff_def filterChangesByScope_def
      isDocument_def isEmptyDiff_def syncStoreChangesToYjsDoc_def syncOps_def
      handleChange_def mergeRemoteChanges_def mergeOps_def storeRemove_def ykvGet_def)

subsection \<open>Presence updates\<close>

lemma stagePresence_eq:
  "stagePresence states pid cs put = put @ remotePresences states pid cs"
  by (induction cs arbitrary: put)
     (auto simp: remotePresences_def publishedPresence_def split: option.splits)

lemma remotePresences_append:
  "remotePresences states pid (xs @ ys)
     = remotePresences states pid xs @ remotePresences states pid ys"
  by (simp add: remotePresences_def map_filter_def)

lemma handleUpdate_eq:
  "handleUpdate e update st
     = mergeRemoteChanges (schema e)
         (mergeOps (map (\<lambda>c. createId (toString c)) (removedClients update))
            (map Some (remotePresences (awarenessStates st) (presenceId e)
               (addedClients update @ updatedClients update)))) st"
  by (simp add: handleUpdate_def Let_def stagePresence_eq remotePresences_append)

lemma remotePresences_not_own:
  "p \<in> set (remotePresences states pid cs) \<Longrightarrow> recId p \<noteq> pid"
  by (simp add: remotePresences_def)

lemma remotePresences_skip:
  assumes "publishedPresence states c = None"
  shows "remotePresences states pid (xs @ c # ys) = remotePresences states pid (xs @ ys)"
  using assms by (simp add: remotePresences_def map_filter_def)

text \<open>
  Claim C9, as the code has it. \<^verbatim>\<open>handleUpdate\<close> calls \<^verbatim>\<open>mergeRemoteChanges\<close> exactly
  once. Its \<^verbatim>\<open>put\<close> holds the published presences of the added and then of the updated
  participants, without those whose id is the local presence id; its \<^verbatim>\<open>remove\<close> holds
  the presence ids made from the removed participants; the log is not touched. When the
  store accepts every staged presence, the handler completes and the store is the store
  with these ids removed and these records put. When it rejects one, \<^verbatim>\<open>store.put\<close>
  throws and the store is as before: the merge is all or nothing.
\<close>

theorem presence_update_batch:
  "(let put = remotePresences (awarenessStates st) (presenceId e)
               (addedClients update @ updatedClients update);
        remove = map (\<lambda>c. createId (toString c)) (removedClients update);
        st' = fst (handleUpdate e update st);
        out = snd (handleUpdate e update st)
    in (\<forall>p \<in> set put. recId p \<noteq> presenceId e)
       \<and> merges st' = merges st @ [mergeOps remove (map Some put)]
       \<and> yarray st' = yarray st \<and> transactions st' = transactions st
       \<and> (if list_all (validateRecord (schema e)) put
          then out = Completed
               \<and> store st' = fold (\<lambda>p. AList.update (recId p) p) put
                               (fold AList.delete remove (store st))
          else out = Threw ValidationError \<and> store st' = store st))"
proof (cases "list_all (validateRecord (schema e))
    (remotePresences (awarenessStates st) (presenceId e)
       (addedClients update @ updatedClients update))")
  case True
  then show ?thesis
    using remotePresences_not_own
    by (simp add: Let_def handleUpdate_eq mergeRemoteChanges_valid)
next
  case False
  then show ?thesis
    using remotePresences_not_own
    by (simp add: Let_def handleUpdate_eq mergeRemoteChanges_invalid)
qed

lemma presenceState_facts:
  "presenceId exampleEnv = ''instance_presence:7''"
  "awarenessStates presenceState
     = [(7, \<lparr>presence = Some presenceOwn\<rparr>), (12, \<lparr>presence = Some presenceA\<rparr>),
        (13, \<lparr>presence = None\<rparr>), (14, \<lparr>presence = Some presenceBad\<rparr>)]"
  "awarenessStates presenceStart = awarenessStates presenceState"
  "store presenceState = [(''instance_presence:12'', presenceA)]"
  "store presenceStart = []"
  "merges presenceState = []"
  "merges presenceStart = []"
  "validateRecord (schema exampleEnv) presenceA"
  "\<not> validateRecord (schema exampleEnv) presenceBad"
  by (simp_all add: presenceId_def createId_def exampleEnv_def toString_7 presenceState_def
      presenceStart_def activate_def exampleSchema_def knownTypes_def presenceA_def
      presenceBad_def)

lemma presence_ids:
  "recId presenceA = ''instance_presence:12''"
  "recId presenceOwn = ''instance_presence:7''"
  "recId presenceBad = ''instance_presence:14''"
  by (simp_all add: presenceA_def presenceOwn_def presenceBad_def)

lemma presence_runs:
  "snd (handleUpdate exampleEnv
          \<lparr>addedClients = [12], updatedClients = [7], removedClients = []\<rparr> presenceStart)
     = Completed"
  "store (fst (handleUpdate exampleEnv
          \<lparr>addedClients = [12], updatedClients = [7], removedClients = []\<rparr> presenceStart))
     = [(''instance_presence:12'', presenceA)]"
  "merges (fst (handleUpdate exampleEnv
          \<lparr>addedClients = [12], updatedClients = [7], removedClients = []\<rparr> presenceStart))
     = [[StorePut [Some presenceA]]]"
  "snd (handleUpdate exampleEnv
          \<lparr>addedClients = [], updatedClients = [], removedClients = [12]\<rparr> presenceState)
     = Completed"
  "store (fst (handleUpdate exampleEnv
          \<lparr>addedClients = [], updatedClients = [], removedClients = [12]\<rparr> presenceState)) = []"
  "merges (fst (handleUpdate exampleEnv
          \<lparr>addedClients = [], updatedClients = [], removedClients = [12]\<rparr> presenceState))
       = [[StoreRemove [''instance_presence:12'']]]"
  "snd (handleUpdate exampleEnv
          \<lparr>addedClients = [14], updatedClients = [], removedClients = [12]\<rparr> presenceState)
     = Threw ValidationError"
  "store (fst (handleUpdate exampleEnv
          \<lparr>addedClients = [14], updatedClients = [], removedClients = [12]\<rparr> presenceState))
     = [(''instance_presence:12'', presenceA)]"
  "merges (fst (handleUpdate exampleEnv
          \<lparr>addedClients = [14], updatedClients = [], removedClients = [12]\<rparr> presenceState))
     = [[StoreRemove [''instance_presence:12''], StorePut [Some presenceBad]]]"
  "snd (handleUpdate exampleEnv
          \<lparr>addedClients = [13, 12], updatedClients = [], removedClients = []\<rparr> presenceStart)
     = Completed"
  "store (fst (handleUpdate exampleEnv
          \<lparr>addedClients = [13, 12], updatedClients = [], removedClients = []\<rparr> presenceStart))
     = [(''instance_presence:12'', presenceA)]"
  "snd (handleUpdate exampleEnv
          \<lparr>addedClients = [13, 14, 12], updatedClients = [], removedClients = []\<rparr>
          presenceStart)
     = Threw ValidationError"
  "store (fst (handleUpdate exampleEnv
          \<lparr>addedClients = [13, 14, 12], updatedClients = [], removedClients = []\<rparr>
          presenceStart)) = []"
  by (simp_all add: handleUpdate_def Let_def presenceState_facts presence_ids
      mergeRemoteChanges_def mergeOps_def storeRemove_def createId_def toString_12)

theorem presence_update_batch_witness:
  "snd (handleUpdate exampleEnv
          \<lparr>addedClients = [12], updatedClients = [7], removedClients = []\<rparr> presenceStart)
     = Completed
   \<and> store (fst (handleUpdate exampleEnv
          \<lparr>addedClients = [12], updatedClients = [7], removedClients = []\<rparr> presenceStart))
       = [(''instance_presence:12'', presenceA)]
   \<and> merges (fst (handleUpdate exampleEnv
          \<lparr>addedClients = [12], updatedClients = [7], removedClients = []\<rparr> presenceStart))
       = [[StorePut [Some presenceA]]]
   \<and> snd (handleUpdate exampleEnv
          \<lparr>addedClients = [], updatedClients = [], removedClients = [12]\<rparr> presenceState)
       = Completed
   \<and> store (fst (handleUpdate exampleEnv
          \<lparr>addedClients = [], updatedClients = [], removedClients = [12]\<rparr> presenceState)) = []
   \<and> merges (fst (handleUpdate exampleEnv
          \<lparr>addedClients = [], updatedClients = [], removedClients = [12]\<rparr> presenceState))
       = [[StoreRemove [''instance_presence:12'']]]"
proof -
  from presence_update_batch
    [of presenceStart exampleEnv
        "\<lparr>addedClients = [12], updatedClients = [7], removedClients = []\<rparr>"]
  have join: "merges (fst (handleUpdate exampleEnv
          \<lparr>addedClients = [12], updatedClients = [7], removedClients = []\<rparr> presenceStart))
       = merges presenceStart
         @ [mergeOps (map (\<lambda>c. createId (toString c)) [])
              (map Some (remotePresences (awarenessStates presenceStart)
                 (presenceId exampleEnv) ([12] @ [7])))]"
    unfolding Let_def by simp
  from presence_update_batch
    [of presenceState exampleEnv
        "\<lparr>addedClients = [], updatedClients = [], removedClients = [12]\<rparr>"]
  have leave: "merges (fst (handleUpdate exampleEnv
          \<lparr>addedClients = [], updatedClients = [], removedClients = [12]\<rparr> presenceState))
       = merges presenceState
         @ [mergeOps (map (\<lambda>c. createId (toString c)) [12])
              (map Some (remotePresences (awarenessStates presenceState)
                 (presenceId exampleEnv) ([] @ [])))]"
    unfolding Let_def by simp
  from join leave show ?thesis
    by (simp add: presence_runs)
qed

text \<open>
  The claim as the specification words it fails. Participant 14 publishes a presence the
  schema does not accept, in the update in which participant 12 leaves: the presence is
  staged, \<^verbatim>\<open>store.put\<close> throws, and nothing of the batch is applied, so that the store
  still shows the presence of participant 12.
\<close>

theorem invalid_presence_counterexample:
  "remotePresences (awarenessStates presenceState) (presenceId exampleEnv) [14] = [presenceBad]
   \<and> validateRecord (schema exampleEnv) presenceBad = False
   \<and> snd (handleUpdate exampleEnv
          \<lparr>addedClients = [14], updatedClients = [], removedClients = [12]\<rparr> presenceState)
       = Threw ValidationError
   \<and> store (fst (handleUpdate exampleEnv
          \<lparr>addedClients = [14], updatedClients = [], removedClients = [12]\<rparr> presenceState))
       = [(''instance_presence:12'', presenceA)]"
  by (simp add: presence_runs presenceState_facts remotePresences_def publishedPresence_def
      presence_ids)

text \<open>
  Claim C10, as the code has it. A participant in \<^verbatim>\<open>update.added\<close> or
  \<^verbatim>\<open>update.updated\<close> whose awareness state is absent, or is there without a presence,
  contributes nothing and stops nothing: the handler does exactly what it does on the
  update without that participant. It stages the presences of the others and calls
  \<^verbatim>\<open>mergeRemoteChanges\<close> once; when the store accepts them all, the handler completes
  and the store has them. Only a presence that is there and that the store rejects makes
  \<^verbatim>\<open>store.put\<close> throw, and then nothing of the batch is applied.
\<close>

theorem missing_presence_skipped:
  assumes "map_of (awarenessStates st) c = None
           \<or> (\<exists>state. map_of (awarenessStates st) c = Some state \<and> presence state = None)"
  shows "handleUpdate e (update\<lparr>addedClients := xs @ c # ys\<rparr>) st
           = handleUpdate e (update\<lparr>addedClients := xs @ ys\<rparr>) st
       \<and> handleUpdate e (update\<lparr>updatedClients := xs @ c # ys\<rparr>) st
           = handleUpdate e (update\<lparr>updatedClients := xs @ ys\<rparr>) st
       \<and> (let put = remotePresences (awarenessStates st) (presenceId e)
                      (xs @ ys @ updatedClients update);
               remove = map (\<lambda>c. createId (toString c)) (removedClients update);
               st' = fst (handleUpdate e (update\<lparr>addedClients := xs @ c # ys\<rparr>) st);
               out = snd (handleUpdate e (update\<lparr>addedClients := xs @ c # ys\<rparr>) st)
           in merges st' = merges st @ [mergeOps remove (map Some put)]
              \<and> (if list_all (validateRecord (schema e)) put
                 then out = Completed
                      \<and> store st' = fold (\<lambda>p. AList.update (recId p) p) put
                                      (fold AList.delete remove (store st))
                 else out = Threw ValidationError \<and> store st' = store st))"
proof -
  from assms have none: "publishedPresence (awarenessStates st) c = None"
    by (auto simp: publishedPresence_def)
  have skip: "remotePresences (awarenessStates st) pid (as @ c # bs)
      = remotePresences (awarenessStates st) pid (as @ bs)" for pid as bs
    using none by (rule remotePresences_skip)
  have a: "handleUpdate e (update\<lparr>addedClients := xs @ c # ys\<rparr>) st
           = handleUpdate e (update\<lparr>addedClients := xs @ ys\<rparr>) st"
    using skip [of "presenceId e" xs "ys @ updatedClients update"]
    by (simp add: handleUpdate_eq)
  have b: "handleUpdate e (update\<lparr>updatedClients := xs @ c # ys\<rparr>) st
           = handleUpdate e (update\<lparr>updatedClients := xs @ ys\<rparr>) st"
    using skip [of "presenceId e" "addedClients update @ xs" ys]
    by (simp add: handleUpdate_eq)
  have eq: "handleUpdate e (update\<lparr>addedClients := xs @ c # ys\<rparr>) st
      = mergeRemoteChanges (schema e)
          (mergeOps (map (\<lambda>c. createId (toString c)) (removedClients update))
             (map Some (remotePresences (awarenessStates st) (presenceId e)
                (xs @ ys @ updatedClients update)))) st"
    using skip [of "presenceId e" xs "ys @ updatedClients update"]
    by (simp add: handleUpdate_eq)
  have c: "(let put = remotePresences (awarenessStates st) (presenceId e)
                      (xs @ ys @ updatedClients update);
               remove = map (\<lambda>c. createId (toString c)) (removedClients update);
               st' = fst (handleUpdate e (update\<lparr>addedClients := xs @ c # ys\<rparr>) st);
               out = snd (handleUpdate e (update\<lparr>addedClients := xs @ c # ys\<rparr>) st)
           in merges st' = merges st @ [mergeOps remove (map Some put)]
              \<and> (if list_all (validateRecord (schema e)) put
                 then out = Completed
                      \<and> store st' = fold (\<lambda>p. AList.update (recId p) p) put
                                      (fold AList.delete remove (store st))
                 else out = Threw ValidationError \<and> store st' = store st))"
  proof (cases "list_all (validateRecord (schema e))
      (remotePresences (awarenessStates st) (presenceId e) (xs @ ys @ updatedClients update))")
    case True
    then show ?thesis unfolding Let_def eq by (simp add: mergeRemoteChanges_valid)
  next
    case False
    then show ?thesis unfolding Let_def eq by (simp add: mergeRemoteChanges_invalid)
  qed
  from a b c show ?thesis by (intro conjI)
qed

theorem missing_presence_skipped_witness:
  "map_of (awarenessStates presenceStart) 13 = Some \<lparr>presence = None\<rparr>
   \<and> map_of (awarenessStates presenceStart) 99 = None
   \<and> handleUpdate exampleEnv
        \<lparr>addedClients = [13, 12], updatedClients = [], removedClients = []\<rparr> presenceStart
       = handleUpdate exampleEnv
           \<lparr>addedClients = [12], updatedClients = [], removedClients = []\<rparr> presenceStart
   \<and> handleUpdate exampleEnv
        \<lparr>addedClients = [], updatedClients = [99, 12], removedClients = []\<rparr> presenceStart
       = handleUpdate exampleEnv
           \<lparr>addedClients = [], updatedClients = [12], removedClients = []\<rparr> presenceStart
   \<and> snd (handleUpdate exampleEnv
        \<lparr>addedClients = [13, 12], updatedClients = [], removedClients = []\<rparr> presenceStart)
       = Completed
   \<and> store (fst (handleUpdate exampleEnv
        \<lparr>addedClients = [13, 12], updatedClients = [], removedClients = []\<rparr> presenceStart))
       = [(''instance_presence:12'', presenceA)]"
proof -
  have s13: "map_of (awarenessStates presenceStart) 13 = Some \<lparr>presence = None\<rparr>"
    and s99: "map_of (awarenessStates presenceStart) 99 = None"
    by (simp_all add: presenceState_facts)
  from s13 have h13: "map_of (awarenessStates presenceStart) 13 = None
      \<or> (\<exists>state. map_of (awarenessStates presenceStart) 13 = Some state
            \<and> presence state = None)"
    by simp
  from s99 have h99: "map_of (awarenessStates presenceStart) 99 = None
      \<or> (\<exists>state. map_of (awarenessStates presenceStart) 99 = Some state
            \<and> presence state = None)"
    by simp
  note absent = missing_presence_skipped
    [where st = presenceStart and c = 13 and e = exampleEnv and xs = "[]" and ys = "[12]"
       and update = "\<lparr>addedClients = [], updatedClients = [], removedClients = []\<rparr>",
     OF h13]
  note unknown = missing_presence_skipped
    [where st = presenceStart and c = 99 and e = exampleEnv and xs = "[]" and ys = "[12]"
       and update = "\<lparr>addedClients = [], updatedClients = [], removedClients = []\<rparr>",
     OF h99]
  from absent have a: "handleUpdate exampleEnv
        \<lparr>addedClients = [13, 12], updatedClients = [], removedClients = []\<rparr> presenceStart
       = handleUpdate exampleEnv
           \<lparr>addedClients = [12], updatedClients = [], removedClients = []\<rparr> presenceStart"
    by simp
  from unknown have u: "handleUpdate exampleEnv
        \<lparr>addedClients = [], updatedClients = [99, 12], removedClients = []\<rparr> presenceStart
       = handleUpdate exampleEnv
           \<lparr>addedClients = [], updatedClients = [12], removedClients = []\<rparr> presenceStart"
    by simp
  from a u s13 s99 presence_runs(10,11) show ?thesis by (intro conjI)
qed

text \<open>
  The claim as the specification words it fails. Participant 13 has no presence and
  participant 14 a malformed one, in one update with participant 12: the handler does not
  complete on the rest of the batch, \<^verbatim>\<open>store.put\<close> throws on the malformed presence and
  the presence of participant 12 does not reach the store.
\<close>

theorem malformed_presence_counterexample:
  "map_of (awarenessStates presenceStart) 13 = Some \<lparr>presence = None\<rparr>
   \<and> map_of (awarenessStates presenceStart) 14 = Some \<lparr>presence = Some presenceBad\<rparr>
   \<and> snd (handleUpdate exampleEnv
        \<lparr>addedClients = [13, 14, 12], updatedClients = [], removedClients = []\<rparr>
        presenceStart) = Threw ValidationError
   \<and> store (fst (handleUpdate exampleEnv
        \<lparr>addedClients = [13, 14, 12], updatedClients = [], removedClients = []\<rparr>
        presenceStart)) = []"
  by (simp add: presence_runs presenceState_facts)

end
